theory Spec2Isabelle
  imports Complex_Main
begin

section \<open>Certainty factor algebra (inference\_engine/certainty\_factor.py)\<close>

text \<open>
  Python floats are modelled by the real numbers: every operation below is the exact
  counterpart of the floating-point one, so rounding is not part of the model.
  Exceptions are values: a function that can raise returns \<open>py_error + 'a\<close>.
\<close>

datatype py_error = ZeroDivisionError | ValueError

text \<open>\<open>CertaintyFactor.calculate_cf\<close>\<close>

definition calculate_cf :: "real \<Rightarrow> real \<Rightarrow> real" where
  "calculate_cf mb md = mb - md"

text \<open>
  \<open>CertaintyFactor.combine_sequential_cf\<close>: the division is guarded by the test
  \<open>denominator == 0\<close>, so the function never raises.
\<close>

definition combine_sequential_cf :: "real \<Rightarrow> real \<Rightarrow> real" where
  "combine_sequential_cf cf1 cf2 =
     (if cf1 > 0 \<and> cf2 > 0 then cf1 + cf2 * (1 - cf1)
      else if cf1 < 0 \<and> cf2 < 0 then cf1 + cf2 * (1 + cf1)
      else (let denominator = 1 - min \<bar>cf1\<bar> \<bar>cf2\<bar>
            in if denominator = 0 then 0 else (cf1 + cf2) / denominator))"

text \<open>\<open>CertaintyFactor.combine_parallel_cf\<close>: a left fold from the first element.\<close>

fun combine_parallel_cf :: "real list \<Rightarrow> real" where
  "combine_parallel_cf [] = 0"
| "combine_parallel_cf (cf # cfs) = foldl combine_sequential_cf cf cfs"

text \<open>\<open>CertaintyFactor.cf_with_user_certainty\<close>\<close>

definition cf_with_user_certainty :: "real \<Rightarrow> real \<Rightarrow> real" where
  "cf_with_user_certainty cf_rule cf_user = cf_rule * cf_user"

text \<open>\<open>CertaintyFactor.interpret_cf\<close>: the tuple (kategori, deskripsi).\<close>

definition interpret_cf :: "real \<Rightarrow> string \<times> string" where
  "interpret_cf cf0 =
     (let cf = \<bar>cf0\<bar>
      in if cf \<ge> 0.9 then (''Sangat Yakin'', ''Diagnosis ini sangat mungkin benar'')
         else if cf \<ge> 0.7 then (''Yakin'', ''Diagnosis ini kemungkinan besar benar'')
         else if cf \<ge> 0.5 then (''Cukup Yakin'', ''Diagnosis ini cukup mungkin benar'')
         else if cf \<ge> 0.3 then (''Kurang Yakin'', ''Diagnosis ini mungkin benar'')
         else if cf \<ge> 0.1 then (''Tidak Yakin'', ''Diagnosis ini kurang mungkin benar'')
         else (''Sangat Tidak Yakin'', ''Diagnosis ini sangat kecil kemungkinannya''))"

text \<open>\<open>CertaintyFactor.get_confidence_percentage\<close>\<close>

definition get_confidence_percentage :: "real \<Rightarrow> real" where
  "get_confidence_percentage cf = ((cf + 1) / 2) * 100"

text \<open>\<open>CertaintyFactor.calculate_hypothesis_cf\<close>: raises on lists of different length.\<close>

definition calculate_hypothesis_cf :: "real list \<Rightarrow> real list \<Rightarrow> py_error + real" where
  "calculate_hypothesis_cf rule_cfs user_cfs =
     (if length rule_cfs \<noteq> length user_cfs then Inl ValueError
      else Inr (combine_parallel_cf
                  (map (\<lambda>(rule_cf, user_cf). cf_with_user_certainty rule_cf user_cf)
                       (zip rule_cfs user_cfs))))"

text \<open>
  The module-level \<open>combine_certainty_factors\<close> of forward\_chaining.py: the same three
  branches, but the quotient of the last branch is computed with no test of the
  denominator, so Python's \<open>/\<close> raises \<open>ZeroDivisionError\<close> when it is zero.
\<close>

definition py_truediv :: "real \<Rightarrow> real \<Rightarrow> py_error + real" where
  "py_truediv a b = (if b = 0 then Inl ZeroDivisionError else Inr (a / b))"

definition combine_certainty_factors :: "real \<Rightarrow> real \<Rightarrow> py_error + real" where
  "combine_certainty_factors cf1 cf2 =
     (if cf1 > 0 \<and> cf2 > 0 then Inr (cf1 + cf2 * (1 - cf1))
      else if cf1 < 0 \<and> cf2 < 0 then Inr (cf1 + cf2 * (1 + cf1))
      else py_truediv (cf1 + cf2) (1 - min \<bar>cf1\<bar> \<bar>cf2\<bar>))"

text \<open>The module-level \<open>calculate_mb_md\<close> of forward\_chaining.py.\<close>

definition calculate_mb_md :: "real \<Rightarrow> real \<Rightarrow> real" where
  "calculate_mb_md mb md = mb - md"


section \<open>Rules and the forward chaining engine (inference\_engine/forward\_chaining.py)\<close>

text \<open>
  A rule is the dictionary that \<open>KnowledgeBaseManager._validate_rule\<close> and
  \<open>Validator.validate_rule_structure\<close> describe: the keys \<open>IF\<close> (a list of strings)
  and \<open>THEN\<close> (a string) are present, \<open>CF\<close> and \<open>description\<close> may be absent.
  The engines read the optional keys with \<open>rule.get('CF', 1.0)\<close> and
  \<open>rule.get('description', '')\<close>.
\<close>

record rule =
  rule_IF :: "string list"
  rule_THEN :: string
  rule_CF :: "real option"
  rule_description :: "string option"

definition get_CF :: "rule \<Rightarrow> real" where
  "get_CF r = (case rule_CF r of None \<Rightarrow> 1 | Some cf \<Rightarrow> cf)"

definition get_description :: "rule \<Rightarrow> string" where
  "get_description r = (case rule_description r of None \<Rightarrow> [] | Some d \<Rightarrow> d)"

text \<open>
  The entries of \<open>reasoning_trace\<close>, without their timestamps. \<open>Rule_fired\<close> carries
  rule\_id, conditions, conclusion, cf and description.
\<close>

datatype fc_event =
    Fact_added string
  | Rule_fired string "string list" string real string

text \<open>
  The engine object. \<open>self.rules\<close> is a dictionary, iterated in insertion order: an
  association list from rule ids to rules. \<open>diagnosis_scores\<close> is a
  \<open>defaultdict(float)\<close>: a map whose missing keys read as 0.
\<close>

record forward_chaining =
  fc_rules :: "(string \<times> rule) list"
  fc_working_memory :: "string set"
  fc_inferred_facts :: "string set"
  fc_fired_rules :: "string list"
  fc_reasoning_trace :: "fc_event list"
  fc_diagnosis_scores :: "string \<rightharpoonup> real"

text \<open>The state that \<open>__init__\<close> builds around the loaded rules.\<close>

definition fc_init :: "(string \<times> rule) list \<Rightarrow> forward_chaining" where
  "fc_init rs =
     \<lparr>fc_rules = rs, fc_working_memory = {}, fc_inferred_facts = {}, fc_fired_rules = [],
      fc_reasoning_trace = [], fc_diagnosis_scores = Map.empty\<rparr>"

text \<open>\<open>ForwardChaining.reset\<close>\<close>

definition fc_reset :: "forward_chaining \<Rightarrow> forward_chaining" where
  "fc_reset s =
     s\<lparr>fc_working_memory := {}, fc_inferred_facts := {}, fc_fired_rules := [],
       fc_reasoning_trace := [], fc_diagnosis_scores := Map.empty\<rparr>"

text \<open>\<open>ForwardChaining.add_facts\<close>\<close>

fun fc_add_facts :: "forward_chaining \<Rightarrow> string list \<Rightarrow> forward_chaining" where
  "fc_add_facts s [] = s"
| "fc_add_facts s (a_fact # facts) =
     fc_add_facts
       (s\<lparr>fc_working_memory := insert a_fact (fc_working_memory s),
          fc_reasoning_trace := fc_reasoning_trace s @ [Fact_added a_fact]\<rparr>)
       facts"

text \<open>\<open>ForwardChaining.can_fire_rule\<close>\<close>

definition can_fire_rule :: "forward_chaining \<Rightarrow> rule \<Rightarrow> bool" where
  "can_fire_rule s r =
     (let all_facts = fc_working_memory s \<union> fc_inferred_facts s
      in list_all (\<lambda>condition. condition \<in> all_facts) (rule_IF r))"

text \<open>
  \<open>ForwardChaining.fire_rule\<close>: the returned \<open>Optional[str]\<close> with the new state.
\<close>

definition score_of :: "(string \<rightharpoonup> real) \<Rightarrow> string \<Rightarrow> real" where
  "score_of scores d = (case scores d of None \<Rightarrow> 0 | Some v \<Rightarrow> v)"

definition fire_rule :: "forward_chaining \<Rightarrow> string \<Rightarrow> rule \<Rightarrow> string option \<times> forward_chaining" where
  "fire_rule s rule_id r =
     (if rule_id \<in> set (fc_fired_rules s) then (None, s)
      else
        (let conclusion = rule_THEN r; cf = get_CF r
         in (Some conclusion,
             s\<lparr>fc_inferred_facts := insert conclusion (fc_inferred_facts s),
               fc_fired_rules := fc_fired_rules s @ [rule_id],
               fc_diagnosis_scores :=
                 (fc_diagnosis_scores s)(conclusion \<mapsto> score_of (fc_diagnosis_scores s) conclusion + cf),
               fc_reasoning_trace :=
                 fc_reasoning_trace s @
                   [Rule_fired rule_id (rule_IF r) conclusion cf (get_description r)]\<rparr>)))"

text \<open>Python's truth value of an \<open>Optional[str]\<close>: \<open>None\<close> and the empty string are false.\<close>

definition truthy :: "string option \<Rightarrow> bool" where
  "truthy c = (case c of None \<Rightarrow> False | Some v \<Rightarrow> v \<noteq> [])"

text \<open>
  The \<open>for rule_id, rule in self.rules.items()\<close> loop of \<open>forward_chain\<close>: one pass,
  threading the flag \<open>new_facts_added\<close> and the engine state.
\<close>

fun rules_pass :: "(string \<times> rule) list \<Rightarrow> bool \<Rightarrow> forward_chaining \<Rightarrow> bool \<times> forward_chaining" where
  "rules_pass [] new_facts_added s = (new_facts_added, s)"
| "rules_pass ((rule_id, r) # rest) new_facts_added s =
     (if rule_id \<in> set (fc_fired_rules s) then rules_pass rest new_facts_added s
      else if can_fire_rule s r then
        (case fire_rule s rule_id r of
           (conclusion, s') \<Rightarrow>
             rules_pass rest (if truthy conclusion then True else new_facts_added) s')
      else rules_pass rest new_facts_added s)"

text \<open>
  The \<open>while new_facts_added and iteration < max_iterations\<close> loop; it returns the
  final \<open>iteration\<close> and state.
\<close>

function forward_loop :: "int \<Rightarrow> bool \<Rightarrow> int \<Rightarrow> forward_chaining \<Rightarrow> int \<times> forward_chaining" where
  "forward_loop max_iterations new_facts_added iteration s =
     (if new_facts_added \<and> iteration < max_iterations then
        (case rules_pass (fc_rules s) False s of
           (new_facts_added', s') \<Rightarrow>
             forward_loop max_iterations new_facts_added' (iteration + 1) s')
      else (iteration, s))"
  by pat_completeness auto
termination
  by (relation "measure (\<lambda>(max_iterations, new_facts_added, iteration, s).
                   nat (max_iterations - iteration))") auto

declare forward_loop.simps [simp del]

text \<open>
  The dictionary that \<open>forward_chain\<close> returns, without \<open>final_diagnoses\<close> (a filtered and
  sorted view of \<open>diagnosis_scores\<close>). The two fact lists are built from sets, so they are
  kept as sets.
\<close>

record fc_results =
  res_iterations :: int
  res_initial_facts :: "string set"
  res_inferred_facts :: "string set"
  res_fired_rules :: "string list"
  res_diagnosis_scores :: "string \<rightharpoonup> real"
  res_reasoning_trace :: "fc_event list"

text \<open>\<open>ForwardChaining.forward_chain\<close>: the results and the engine state afterwards.\<close>

definition forward_chain :: "forward_chaining \<Rightarrow> int \<Rightarrow> fc_results \<times> forward_chaining" where
  "forward_chain s max_iterations =
     (case forward_loop max_iterations True 0 s of
        (iteration, s') \<Rightarrow>
          (\<lparr>res_iterations = iteration,
            res_initial_facts = fc_working_memory s',
            res_inferred_facts = fc_inferred_facts s',
            res_fired_rules = fc_fired_rules s',
            res_diagnosis_scores = fc_diagnosis_scores s',
            res_reasoning_trace = fc_reasoning_trace s'\<rparr>, s'))"

text \<open>The state after \<open>n\<close> passes over the rules, and the states no pass changes.\<close>

fun passes :: "nat \<Rightarrow> forward_chaining \<Rightarrow> forward_chaining" where
  "passes 0 s = s"
| "passes (Suc n) s = passes n (snd (rules_pass (fc_rules s) False s))"

definition unfired_and_applicable :: "forward_chaining \<Rightarrow> string \<times> rule \<Rightarrow> bool" where
  "unfired_and_applicable s = (\<lambda>(rule_id, r). rule_id \<notin> set (fc_fired_rules s) \<and> can_fire_rule s r)"

definition is_fixpoint :: "forward_chaining \<Rightarrow> bool" where
  "is_fixpoint s = (filter (unfired_and_applicable s) (fc_rules s) = [])"


section \<open>The backward chaining engine (inference\_engine/backward\_chaining.py)\<close>

text \<open>
  The entries of the backward chainer's \<open>reasoning_trace\<close>, without timestamps:
  \<open>Max_depth_reached goal depth\<close>, \<open>Goal_proved_by_fact goal depth\<close>,
  \<open>Goal_proved_by_user goal depth\<close>, \<open>Trying_rule rule_id goal conditions depth\<close>,
  \<open>Goal_proved_by_rule rule_id goal cf depth\<close> and \<open>User_questioned question answer\<close>.
\<close>

datatype bc_event =
    BC_fact_added string
  | Max_depth_reached string int
  | Goal_proved_by_fact string int
  | Goal_proved_by_user string int
  | Trying_rule string string "string list" int
  | Goal_proved_by_rule string string real int
  | User_questioned string bool

text \<open>
  The engine object. \<open>question_callback\<close> is \<open>None\<close> until \<open>set_question_callback\<close>
  stores the oracle, a function from the question to the user's answer.
\<close>

record backward_chaining =
  bc_rules :: "(string \<times> rule) list"
  bc_working_memory :: "string set"
  bc_asked_questions :: "string set"
  bc_proved_goals :: "string set"
  bc_failed_goals :: "string set"
  bc_reasoning_trace :: "bc_event list"
  bc_question_callback :: "(string \<Rightarrow> bool) option"

definition bc_init :: "(string \<times> rule) list \<Rightarrow> backward_chaining" where
  "bc_init rs =
     \<lparr>bc_rules = rs, bc_working_memory = {}, bc_asked_questions = {}, bc_proved_goals = {},
      bc_failed_goals = {}, bc_reasoning_trace = [], bc_question_callback = None\<rparr>"

text \<open>\<open>BackwardChaining.reset\<close>\<close>

definition bc_reset :: "backward_chaining \<Rightarrow> backward_chaining" where
  "bc_reset s =
     s\<lparr>bc_working_memory := {}, bc_asked_questions := {}, bc_proved_goals := {},
       bc_failed_goals := {}, bc_reasoning_trace := []\<rparr>"

text \<open>\<open>BackwardChaining.set_question_callback\<close>\<close>

definition set_question_callback :: "backward_chaining \<Rightarrow> (string \<Rightarrow> bool) \<Rightarrow> backward_chaining" where
  "set_question_callback s callback = s\<lparr>bc_question_callback := Some callback\<rparr>"

text \<open>\<open>BackwardChaining.add_facts\<close>\<close>

fun bc_add_facts :: "backward_chaining \<Rightarrow> string list \<Rightarrow> backward_chaining" where
  "bc_add_facts s [] = s"
| "bc_add_facts s (a_fact # facts) =
     bc_add_facts
       (s\<lparr>bc_working_memory := insert a_fact (bc_working_memory s),
          bc_reasoning_trace := bc_reasoning_trace s @ [BC_fact_added a_fact]\<rparr>)
       facts"

text \<open>\<open>BackwardChaining.find_rules_for_goal\<close>\<close>

definition find_rules_for_goal :: "backward_chaining \<Rightarrow> string \<Rightarrow> (string \<times> rule) list" where
  "find_rules_for_goal s goal = filter (\<lambda>(rule_id, r). rule_THEN r = goal) (bc_rules s)"

text \<open>\<open>BackwardChaining._ask_user\<close>: the answer and the new state.\<close>

definition ask_user :: "backward_chaining \<Rightarrow> string \<Rightarrow> bool \<times> backward_chaining" where
  "ask_user s question =
     (if question \<in> bc_asked_questions s then (False, s)
      else
        (let s1 = s\<lparr>bc_asked_questions := insert question (bc_asked_questions s)\<rparr>
         in case bc_question_callback s1 of
              Some callback \<Rightarrow>
                (let answer = callback question
                 in (answer,
                     s1\<lparr>bc_reasoning_trace :=
                          bc_reasoning_trace s1 @ [User_questioned question answer]\<rparr>))
            | None \<Rightarrow> (False, s1)))"

text \<open>
  \<open>BackwardChaining.prove_goal\<close>. The loop over the matching rules is \<open>try_rules\<close> and
  the loop over the conditions of one rule is \<open>prove_conditions\<close>, which stops at the
  first condition that fails; both call back into \<open>prove_goal\<close>, one level deeper.
\<close>

function prove_goal :: "backward_chaining \<Rightarrow> string \<Rightarrow> int \<Rightarrow> int \<Rightarrow> bool \<times> backward_chaining"
  and try_rules :: "backward_chaining \<Rightarrow> string \<Rightarrow> (string \<times> rule) list \<Rightarrow> int \<Rightarrow> int \<Rightarrow> bool \<times> backward_chaining"
  and prove_conditions :: "backward_chaining \<Rightarrow> string list \<Rightarrow> int \<Rightarrow> int \<Rightarrow> bool \<times> backward_chaining"
where
  "prove_goal s goal depth max_depth =
     (if depth > max_depth then
        (False, s\<lparr>bc_reasoning_trace := bc_reasoning_trace s @ [Max_depth_reached goal depth]\<rparr>)
      else if goal \<in> bc_proved_goals s then (True, s)
      else if goal \<in> bc_failed_goals s then (False, s)
      else if goal \<in> bc_working_memory s then
        (True, s\<lparr>bc_proved_goals := insert goal (bc_proved_goals s),
                 bc_reasoning_trace := bc_reasoning_trace s @ [Goal_proved_by_fact goal depth]\<rparr>)
      else if find_rules_for_goal s goal = [] then
        (case ask_user s goal of
           (answer, s1) \<Rightarrow>
             if answer then
               (True, s1\<lparr>bc_working_memory := insert goal (bc_working_memory s1),
                        bc_proved_goals := insert goal (bc_proved_goals s1),
                        bc_reasoning_trace :=
                          bc_reasoning_trace s1 @ [Goal_proved_by_user goal depth]\<rparr>)
             else (False, s1\<lparr>bc_failed_goals := insert goal (bc_failed_goals s1)\<rparr>))
      else try_rules s goal (find_rules_for_goal s goal) depth max_depth)"
| "try_rules s goal [] depth max_depth =
     (False, s\<lparr>bc_failed_goals := insert goal (bc_failed_goals s)\<rparr>)"
| "try_rules s goal ((rule_id, r) # rest) depth max_depth =
     (case prove_conditions
             (s\<lparr>bc_reasoning_trace :=
                  bc_reasoning_trace s @ [Trying_rule rule_id goal (rule_IF r) depth]\<rparr>)
             (rule_IF r) (depth + 1) max_depth of
        (all_conditions_met, s2) \<Rightarrow>
          if all_conditions_met then
            (True, s2\<lparr>bc_proved_goals := insert goal (bc_proved_goals s2),
                     bc_reasoning_trace :=
                       bc_reasoning_trace s2 @ [Goal_proved_by_rule rule_id goal (get_CF r) depth]\<rparr>)
          else try_rules s2 goal rest depth max_depth)"
| "prove_conditions s [] depth max_depth = (True, s)"
| "prove_conditions s (condition # rest) depth max_depth =
     (case prove_goal s condition depth max_depth of
        (proved, s1) \<Rightarrow>
          if \<not> proved then (False, s1) else prove_conditions s1 rest depth max_depth)"
  by pat_completeness auto
termination
  by (relation "inv_image (less_than <*lex*> less_than)
        (\<lambda>x. case x of
           Inl (s, goal, depth, max_depth) \<Rightarrow> (3 * nat (max_depth + 1 - depth), 0)
         | Inr (Inl (s, goal, rs, depth, max_depth)) \<Rightarrow>
             (3 * (nat (max_depth + 1 - depth) - 1) + 2, length rs)
         | Inr (Inr (s, conditions, depth, max_depth)) \<Rightarrow>
             (3 * nat (max_depth + 1 - depth) + 1, length conditions))")
     auto

declare prove_goal.simps [simp del]

text \<open>
  \<open>BackwardChaining._calculate_goal_confidence\<close>: the running minimum, from 1.0, over
  the \<open>goal_proved_by_rule\<close> entries of the trace for this goal.
\<close>

fun confidence_step :: "string \<Rightarrow> real \<Rightarrow> bc_event \<Rightarrow> real" where
  "confidence_step goal confidence (Goal_proved_by_rule rule_id g cf depth) =
     (if g = goal then min confidence cf else confidence)"
| "confidence_step goal confidence _ = confidence"

definition calculate_goal_confidence :: "backward_chaining \<Rightarrow> string \<Rightarrow> real" where
  "calculate_goal_confidence s goal = foldl (confidence_step goal) 1 (bc_reasoning_trace s)"

text \<open>
  \<open>BackwardChaining.backward_chain\<close>. Each entry of \<open>proved_goals\<close> is the goal with its
  confidence, computed as soon as the goal is proved. \<open>questions_asked\<close> is the list made
  from \<open>asked_questions\<close> when the results dictionary is created, before any goal is
  tried; \<open>reasoning_trace\<close> is the trace at the end.
\<close>

record bc_results =
  bres_goals :: "string list"
  bres_proved_goals :: "(string \<times> real) list"
  bres_failed_goals :: "string list"
  bres_reasoning_trace :: "bc_event list"
  bres_questions_asked :: "string set"

fun backward_chain_loop :: "backward_chaining \<Rightarrow> string list \<Rightarrow> (string \<times> real) list \<Rightarrow> string list
    \<Rightarrow> ((string \<times> real) list \<times> string list) \<times> backward_chaining" where
  "backward_chain_loop s [] proved_list failed_list = ((proved_list, failed_list), s)"
| "backward_chain_loop s (goal # goals) proved_list failed_list =
     (case prove_goal s goal 0 10 of
        (proved, s1) \<Rightarrow>
          if proved then
            backward_chain_loop s1 goals
              (proved_list @ [(goal, calculate_goal_confidence s1 goal)]) failed_list
          else backward_chain_loop s1 goals proved_list (failed_list @ [goal]))"

definition backward_chain :: "backward_chaining \<Rightarrow> string list \<Rightarrow> bc_results \<times> backward_chaining" where
  "backward_chain s goals =
     (case backward_chain_loop s goals [] [] of
        ((proved_list, failed_list), s') \<Rightarrow>
          (\<lparr>bres_goals = goals, bres_proved_goals = proved_list, bres_failed_goals = failed_list,
            bres_reasoning_trace = bc_reasoning_trace s',
            bres_questions_asked = bc_asked_questions s\<rparr>, s'))"

text \<open>
  What a trace records: the questions put to the oracle, in order; for one goal, the CFs
  of the \<open>goal_proved_by_rule\<close> entries whose goal is that goal itself, which are the
  entries \<open>_calculate_goal_confidence\<close> looks at; and the CFs of all
  \<open>goal_proved_by_rule\<close> entries.
\<close>

fun questioned :: "bc_event \<Rightarrow> string list" where
  "questioned (User_questioned question answer) = [question]"
| "questioned _ = []"

definition oracle_calls :: "bc_event list \<Rightarrow> string list" where
  "oracle_calls trace = concat (map questioned trace)"

fun rule_cf_for :: "string \<Rightarrow> bc_event \<Rightarrow> real list" where
  "rule_cf_for goal (Goal_proved_by_rule rule_id g cf depth) = (if g = goal then [cf] else [])"
| "rule_cf_for goal _ = []"

definition own_rule_cfs :: "bc_event list \<Rightarrow> string \<Rightarrow> real list" where
  "own_rule_cfs trace goal = concat (map (rule_cf_for goal) trace)"

fun rule_cf :: "bc_event \<Rightarrow> real list" where
  "rule_cf (Goal_proved_by_rule rule_id g cf depth) = [cf]"
| "rule_cf _ = []"

definition recorded_cfs :: "bc_event list \<Rightarrow> real list" where
  "recorded_cfs trace = concat (map rule_cf trace)"

text \<open>
  The rules that contribute to the proof of a goal, in the words of the specification:
  a rule that the trace records as proving the goal, and in turn every rule that
  contributes to the proof of one of its conditions. \<open>proof_rule_cfs\<close> collects their CFs
  down to a given number of levels; a chain of rules that repeats none is no longer than
  the rule set, which bounds the levels in \<open>contributing_rule_cfs\<close>.
\<close>

definition conditions_of :: "(string \<times> rule) list \<Rightarrow> string \<Rightarrow> string list" where
  "conditions_of rs rule_id = (case map_of rs rule_id of None \<Rightarrow> [] | Some r \<Rightarrow> rule_IF r)"

fun proved_by :: "string \<Rightarrow> bc_event \<Rightarrow> (string \<times> real) list" where
  "proved_by goal (Goal_proved_by_rule rule_id g cf depth) = (if g = goal then [(rule_id, cf)] else [])"
| "proved_by goal _ = []"

fun proof_rule_cfs :: "nat \<Rightarrow> (string \<times> rule) list \<Rightarrow> bc_event list \<Rightarrow> string \<Rightarrow> real list" where
  "proof_rule_cfs 0 rs trace goal = []"
| "proof_rule_cfs (Suc n) rs trace goal =
     concat (map (\<lambda>(rule_id, cf).
                    cf # concat (map (proof_rule_cfs n rs trace) (conditions_of rs rule_id)))
                 (concat (map (proved_by goal) trace)))"

definition contributing_rule_cfs :: "(string \<times> rule) list \<Rightarrow> bc_event list \<Rightarrow> string \<Rightarrow> real list" where
  "contributing_rule_cfs rs trace goal = proof_rule_cfs (length rs) rs trace goal"

text \<open>
  Every question the trace records was put to the oracle once, and is among the asked
  questions of the session.
\<close>

definition asked_once :: "backward_chaining \<Rightarrow> bool" where
  "asked_once s =
     (distinct (oracle_calls (bc_reasoning_trace s))
      \<and> set (oracle_calls (bc_reasoning_trace s)) \<subseteq> bc_asked_questions s)"


text \<open>
  The data model's bound on certainty factors (\<open>_validate_rule\<close> and \<open>validate_cf\<close>
  reject a rule CF above 1), for the rules of the engine and for the CFs already in its
  trace.
\<close>

definition cfs_at_most_one :: "backward_chaining \<Rightarrow> bool" where
  "cfs_at_most_one s =
     (list_all (\<lambda>(rule_id, r). get_CF r \<le> 1) (bc_rules s)
      \<and> list_all (\<lambda>cf. cf \<le> 1) (recorded_cfs (bc_reasoning_trace s)))"


text \<open>
  A session: a new engine and the calls made on it, in order. \<open>prove_goal\<close> is called
  with a depth and a maximal depth; the value it returns is dropped here.
\<close>

datatype bc_operation =
    Op_set_question_callback "string \<Rightarrow> bool"
  | Op_add_facts "string list"
  | Op_prove_goal string int int
  | Op_backward_chain "string list"
  | Op_reset

fun bc_apply :: "backward_chaining \<Rightarrow> bc_operation \<Rightarrow> backward_chaining" where
  "bc_apply s (Op_set_question_callback callback) = set_question_callback s callback"
| "bc_apply s (Op_add_facts facts) = bc_add_facts s facts"
| "bc_apply s (Op_prove_goal goal depth max_depth) = snd (prove_goal s goal depth max_depth)"
| "bc_apply s (Op_backward_chain goals) = snd (backward_chain s goals)"
| "bc_apply s Op_reset = bc_reset s"

definition bc_session :: "(string \<times> rule) list \<Rightarrow> bc_operation list \<Rightarrow> backward_chaining" where
  "bc_session rs ops = foldl bc_apply (bc_init rs) ops"


section \<open>Example data\<close>

text \<open>A rule set with the single rule R1: IF a THEN b, CF 0.9.\<close>

definition example_rules :: "(string \<times> rule) list" where
  "example_rules =
     [(''R1'', \<lparr>rule_IF = [''a''], rule_THEN = ''b'', rule_CF = Some 0.9, rule_description = None\<rparr>)]"

text \<open>
  An acyclic rule set in which R3 can only fire one pass after R1, and then concludes a
  fact that R2 has already inferred: R3: IF b THEN c; R1: IF a THEN b; R2: IF a THEN c.
\<close>

definition late_rules :: "(string \<times> rule) list" where
  "late_rules =
     [(''R3'', \<lparr>rule_IF = [''b''], rule_THEN = ''c'', rule_CF = Some 0.5, rule_description = None\<rparr>),
      (''R1'', \<lparr>rule_IF = [''a''], rule_THEN = ''b'', rule_CF = Some 0.9, rule_description = None\<rparr>),
      (''R2'', \<lparr>rule_IF = [''a''], rule_THEN = ''c'', rule_CF = Some 0.6, rule_description = None\<rparr>)]"

text \<open>
  A chain of two rules: R1: IF a THEN g, CF 0.9; R2: IF b THEN a, CF 0.2.
\<close>

definition chain_rules :: "(string \<times> rule) list" where
  "chain_rules =
     [(''R1'', \<lparr>rule_IF = [''a''], rule_THEN = ''g'', rule_CF = Some 0.9, rule_description = None\<rparr>),
      (''R2'', \<lparr>rule_IF = [''b''], rule_THEN = ''a'', rule_CF = Some 0.2, rule_description = None\<rparr>)]"

text \<open>
  A rule set with a cycle between g and a: R1: IF a THEN g; R2: IF g THEN a;
  R3: IF b THEN a.
\<close>

definition cyclic_rules :: "(string \<times> rule) list" where
  "cyclic_rules =
     [(''R1'', \<lparr>rule_IF = [''a''], rule_THEN = ''g'', rule_CF = Some 0.9, rule_description = None\<rparr>),
      (''R2'', \<lparr>rule_IF = [''g''], rule_THEN = ''a'', rule_CF = Some 0.8, rule_description = None\<rparr>),
      (''R3'', \<lparr>rule_IF = [''b''], rule_THEN = ''a'', rule_CF = Some 0.7, rule_description = None\<rparr>)]"


section \<open>Properties of the certainty factor algebra\<close>

text \<open>
  Claim C1. For all cf1, cf2 in [-1,1], \<open>combine_sequential_cf\<close> returns
  cf1 + cf2*(1-cf1) when both are at least 0, cf1 + cf2*(1+cf1) when both are negative,
  and (cf1+cf2)/(1 - min(|cf1|,|cf2|)) when the signs differ and the denominator is not
  zero; in particular the value at (0.8, 0.6) is 0.92 and the value at (0.6, -0.3) is
  0.3/0.7, both within the tolerance 1e-9.
\<close>

theorem combine_sequential_cf_branches:
  assumes "-1 \<le> cf1" and "cf1 \<le> 1" and "-1 \<le> cf2" and "cf2 \<le> 1"
  shows "(0 \<le> cf1 \<and> 0 \<le> cf2 \<longrightarrow>
            combine_sequential_cf cf1 cf2 = cf1 + cf2 * (1 - cf1))
       \<and> (cf1 < 0 \<and> cf2 < 0 \<longrightarrow>
            combine_sequential_cf cf1 cf2 = cf1 + cf2 * (1 + cf1))
       \<and> (((cf1 < 0 \<and> 0 \<le> cf2) \<or> (0 \<le> cf1 \<and> cf2 < 0)) \<and> 1 - min \<bar>cf1\<bar> \<bar>cf2\<bar> \<noteq> 0 \<longrightarrow>
            combine_sequential_cf cf1 cf2 = (cf1 + cf2) / (1 - min \<bar>cf1\<bar> \<bar>cf2\<bar>))
       \<and> \<bar>combine_sequential_cf 0.8 0.6 - 0.92\<bar> \<le> 1 / 10 ^ 9
       \<and> \<bar>combine_sequential_cf 0.6 (- 0.3) - 0.3 / 0.7\<bar> \<le> 1 / 10 ^ 9"
proof (intro conjI impI)
  assume "0 \<le> cf1 \<and> 0 \<le> cf2"
  then show "combine_sequential_cf cf1 cf2 = cf1 + cf2 * (1 - cf1)"
    by (cases "cf1 = 0"; cases "cf2 = 0") (auto simp: combine_sequential_cf_def)
next
  assume "cf1 < 0 \<and> cf2 < 0"
  then show "combine_sequential_cf cf1 cf2 = cf1 + cf2 * (1 + cf1)"
    by (simp add: combine_sequential_cf_def)
next
  assume "((cf1 < 0 \<and> 0 \<le> cf2) \<or> (0 \<le> cf1 \<and> cf2 < 0)) \<and> 1 - min \<bar>cf1\<bar> \<bar>cf2\<bar> \<noteq> 0"
  then show "combine_sequential_cf cf1 cf2 = (cf1 + cf2) / (1 - min \<bar>cf1\<bar> \<bar>cf2\<bar>)"
    by (auto simp: combine_sequential_cf_def Let_def)
next
  show "\<bar>combine_sequential_cf 0.8 0.6 - 0.92\<bar> \<le> 1 / 10 ^ 9"
    by (simp add: combine_sequential_cf_def)
next
  show "\<bar>combine_sequential_cf 0.6 (- 0.3) - 0.3 / 0.7\<bar> \<le> 1 / 10 ^ 9"
    by (simp add: combine_sequential_cf_def)
qed

theorem combine_sequential_cf_branches_witness:
  "combine_sequential_cf 0.8 0.6 = 0.8 + 0.6 * (1 - 0.8)
   \<and> combine_sequential_cf (- 0.5) (- 0.4) = - 0.5 + (- 0.4) * (1 + (- 0.5))
   \<and> combine_sequential_cf 0.6 (- 0.3) = (0.6 + (- 0.3)) / (1 - min \<bar>0.6\<bar> \<bar>- 0.3\<bar>)
   \<and> combine_sequential_cf 0 0.5 = 0 + 0.5 * (1 - 0)"
  using combine_sequential_cf_branches [of "0.8" "0.6"]
        combine_sequential_cf_branches [of "- 0.5" "- 0.4"]
        combine_sequential_cf_branches [of "0.6" "- 0.3"]
        combine_sequential_cf_branches [of "0" "0.5"]
  by simp

text \<open>
  Claim C4, at the failing input. With cf1 = 1 and cf2 = -1 the signs differ and
  min(|cf1|,|cf2|) = 1: the class method \<open>combine_sequential_cf\<close> returns 0, while the
  module-level \<open>combine_certainty_factors\<close> divides by zero and raises.
\<close>

theorem combine_certainty_factors_zero_denominator:
  "combine_sequential_cf 1 (- 1) = 0
   \<and> combine_certainty_factors 1 (- 1) = Inl ZeroDivisionError"
  by (simp add: combine_sequential_cf_def combine_certainty_factors_def py_truediv_def)

text \<open>
  Claim C7 as stated asks for five categories. The six inputs below lie in [-1,1] and
  \<open>interpret_cf\<close> gives them six different results, so the results do not fit in five
  categories.
\<close>

theorem interpret_cf_five_categories_counterexample:
  "card (interpret_cf ` {0.95, 0.8, 0.6, 0.4, 0.2, 0.05}) = 6"
  by (simp add: interpret_cf_def)

text \<open>
  Claim C7, amended. For every cf in [-1,1], \<open>interpret_cf cf\<close> depends only on |cf|
  (so it agrees at cf and -cf), and it buckets |cf| against the five thresholds
  0.9, 0.7, 0.5, 0.3, 0.1 into six descending categories, each with a fixed label:
  one category at or above each threshold and a sixth one below 0.1.
\<close>

theorem interpret_cf_buckets:
  assumes "-1 \<le> cf" and "cf \<le> 1"
  shows "interpret_cf cf = interpret_cf (- cf)
       \<and> interpret_cf cf = interpret_cf \<bar>cf\<bar>
       \<and> (0.9 \<le> \<bar>cf\<bar> \<longrightarrow>
            interpret_cf cf = (''Sangat Yakin'', ''Diagnosis ini sangat mungkin benar''))
       \<and> (0.7 \<le> \<bar>cf\<bar> \<and> \<bar>cf\<bar> < 0.9 \<longrightarrow>
            interpret_cf cf = (''Yakin'', ''Diagnosis ini kemungkinan besar benar''))
       \<and> (0.5 \<le> \<bar>cf\<bar> \<and> \<bar>cf\<bar> < 0.7 \<longrightarrow>
            interpret_cf cf = (''Cukup Yakin'', ''Diagnosis ini cukup mungkin benar''))
       \<and> (0.3 \<le> \<bar>cf\<bar> \<and> \<bar>cf\<bar> < 0.5 \<longrightarrow>
            interpret_cf cf = (''Kurang Yakin'', ''Diagnosis ini mungkin benar''))
       \<and> (0.1 \<le> \<bar>cf\<bar> \<and> \<bar>cf\<bar> < 0.3 \<longrightarrow>
            interpret_cf cf = (''Tidak Yakin'', ''Diagnosis ini kurang mungkin benar''))
       \<and> (\<bar>cf\<bar> < 0.1 \<longrightarrow>
            interpret_cf cf =
              (''Sangat Tidak Yakin'', ''Diagnosis ini sangat kecil kemungkinannya''))"
  by (simp add: interpret_cf_def)

theorem interpret_cf_buckets_witness:
  "interpret_cf (- 0.95) = interpret_cf 0.95
   \<and> interpret_cf (- 0.95) = (''Sangat Yakin'', ''Diagnosis ini sangat mungkin benar'')
   \<and> interpret_cf 0.8 = (''Yakin'', ''Diagnosis ini kemungkinan besar benar'')
   \<and> interpret_cf (- 0.6) = (''Cukup Yakin'', ''Diagnosis ini cukup mungkin benar'')
   \<and> interpret_cf 0.4 = (''Kurang Yakin'', ''Diagnosis ini mungkin benar'')
   \<and> interpret_cf (- 0.2) = (''Tidak Yakin'', ''Diagnosis ini kurang mungkin benar'')
   \<and> interpret_cf 0.05 =
       (''Sangat Tidak Yakin'', ''Diagnosis ini sangat kecil kemungkinannya'')"
  using interpret_cf_buckets [of "- 0.95"] interpret_cf_buckets [of "0.8"]
        interpret_cf_buckets [of "- 0.6"] interpret_cf_buckets [of "0.4"]
        interpret_cf_buckets [of "- 0.2"] interpret_cf_buckets [of "0.05"]
  by auto


section \<open>Properties of the forward chaining engine\<close>

subsection \<open>What a run leaves unchanged\<close>

lemma fc_add_facts_frame:
  "fc_working_memory (fc_add_facts s facts) = fc_working_memory s \<union> set facts
   \<and> fc_rules (fc_add_facts s facts) = fc_rules s
   \<and> fc_inferred_facts (fc_add_facts s facts) = fc_inferred_facts s
   \<and> fc_fired_rules (fc_add_facts s facts) = fc_fired_rules s
   \<and> fc_diagnosis_scores (fc_add_facts s facts) = fc_diagnosis_scores s"
  by (induction facts arbitrary: s) auto

lemma fire_rule_frame:
  "fc_working_memory (snd (fire_rule s i r)) = fc_working_memory s
   \<and> fc_rules (snd (fire_rule s i r)) = fc_rules s"
  by (simp add: fire_rule_def Let_def)

lemma rules_pass_frame:
  "fc_working_memory (snd (rules_pass rs f s)) = fc_working_memory s
   \<and> fc_rules (snd (rules_pass rs f s)) = fc_rules s"
proof (induction rs arbitrary: f s)
  case Nil
  show ?case by simp
next
  case (Cons p rs)
  obtain i r where p: "p = (i, r)" by (cases p)
  obtain c s' where fr: "fire_rule s i r = (c, s')" by (cases "fire_rule s i r")
  have "fc_working_memory s' = fc_working_memory s \<and> fc_rules s' = fc_rules s"
    using fire_rule_frame [of s i r] fr by simp
  then show ?case using Cons.IH p fr by simp
qed

lemma forward_loop_stop:
  "\<not> (f \<and> i < m) \<Longrightarrow> forward_loop m f i s = (i, s)"
  by (subst forward_loop.simps) auto

lemma forward_loop_step:
  "f \<Longrightarrow> i < m \<Longrightarrow> rules_pass (fc_rules s) False s = (f', s') \<Longrightarrow>
   forward_loop m f i s = forward_loop m f' (i + 1) s'"
  by (subst forward_loop.simps) simp

lemma forward_loop_True:
  "forward_loop m True i s =
     (if i < m
      then forward_loop m (fst (rules_pass (fc_rules s) False s)) (i + 1)
             (snd (rules_pass (fc_rules s) False s))
      else (i, s))"
  by (subst forward_loop.simps) (simp split: prod.splits)

lemma forward_loop_False: "forward_loop m False i s = (i, s)"
  by (simp add: forward_loop_stop)

lemma forward_loop_frame:
  "fc_working_memory (snd (forward_loop m f i s)) = fc_working_memory s
   \<and> fc_rules (snd (forward_loop m f i s)) = fc_rules s"
proof (induction m f i s rule: forward_loop.induct)
  case (1 m f i s)
  show ?case
  proof (cases "f \<and> i < m")
    case True
    obtain f' s' where rp: "rules_pass (fc_rules s) False s = (f', s')"
      by (cases "rules_pass (fc_rules s) False s")
    have fr: "fc_working_memory s' = fc_working_memory s \<and> fc_rules s' = fc_rules s"
      using rules_pass_frame [of "fc_rules s" False s] rp by simp
    have "forward_loop m f i s = forward_loop m f' (i + 1) s'"
      using True rp by (simp add: forward_loop_step)
    then show ?thesis using "1.IH" [OF True rp [symmetric]] fr by simp
  next
    case False
    then show ?thesis by (simp add: forward_loop_stop)
  qed
qed

lemma forward_chain_frame:
  "fc_working_memory (snd (forward_chain s m)) = fc_working_memory s
   \<and> fc_rules (snd (forward_chain s m)) = fc_rules s
   \<and> res_initial_facts (fst (forward_chain s m)) = fc_working_memory s"
  using forward_loop_frame [of m True 0 s]
  by (cases "forward_loop m True 0 s") (simp add: forward_chain_def)

lemma foldl_fc_add_facts_frame:
  "fc_working_memory (foldl fc_add_facts s fact_lists) = fc_working_memory s \<union> \<Union> (set ` set fact_lists)
   \<and> fc_rules (foldl fc_add_facts s fact_lists) = fc_rules s"
  by (induction fact_lists arbitrary: s) (auto simp: fc_add_facts_frame)

text \<open>
  Claim C10. Running the forward chaining evaluator never modifies the known-fact working
  memory: after any sequence of \<open>add_facts\<close> calls on a new engine followed by
  \<open>forward_chain\<close>, with any rule set and any \<open>max_iterations\<close>, the working memory is
  exactly the union of the fact lists passed to \<open>add_facts\<close> (and so is the reported
  \<open>initial_facts\<close>); from any state, \<open>forward_chain\<close> leaves the working memory and the
  rules as they were.
\<close>

theorem forward_chain_preserves_working_memory:
  "fc_working_memory (snd (forward_chain (foldl fc_add_facts (fc_init rs) fact_lists) max_iterations))
     = \<Union> (set ` set fact_lists)
   \<and> res_initial_facts (fst (forward_chain (foldl fc_add_facts (fc_init rs) fact_lists) max_iterations))
     = \<Union> (set ` set fact_lists)
   \<and> fc_rules (snd (forward_chain (foldl fc_add_facts (fc_init rs) fact_lists) max_iterations)) = rs
   \<and> fc_working_memory (snd (forward_chain s max_iterations)) = fc_working_memory s
   \<and> fc_rules (snd (forward_chain s max_iterations)) = fc_rules s"
  by (simp add: forward_chain_frame foldl_fc_add_facts_frame fc_init_def)


subsection \<open>Where inferred facts come from\<close>

lemma fire_rule_inferred:
  "fc_inferred_facts (snd (fire_rule s i r)) \<subseteq> insert (rule_THEN r) (fc_inferred_facts s)"
  by (auto simp: fire_rule_def Let_def)

lemma rules_pass_inferred:
  "fc_inferred_facts (snd (rules_pass rs f s)) \<subseteq> fc_inferred_facts s \<union> (\<lambda>p. rule_THEN (snd p)) ` set rs"
proof (induction rs arbitrary: f s)
  case Nil
  show ?case by simp
next
  case (Cons p rs)
  obtain i r where p: "p = (i, r)" by (cases p)
  obtain c s' where fr: "fire_rule s i r = (c, s')" by (cases "fire_rule s i r")
  have "fc_inferred_facts s' \<subseteq> insert (rule_THEN r) (fc_inferred_facts s)"
    using fire_rule_inferred [of s i r] fr by simp
  moreover have "fc_inferred_facts (snd (rules_pass rs g s')) \<subseteq> fc_inferred_facts s' \<union> (\<lambda>p. rule_THEN (snd p)) ` set rs" for g
    by (rule Cons.IH)
  moreover have "fc_inferred_facts (snd (rules_pass rs f s)) \<subseteq> fc_inferred_facts s \<union> (\<lambda>p. rule_THEN (snd p)) ` set rs"
    by (rule Cons.IH)
  ultimately show ?case using p fr by (auto split: if_splits)
qed

lemma forward_loop_inferred:
  "fc_inferred_facts (snd (forward_loop m f i s))
     \<subseteq> fc_inferred_facts s \<union> (\<lambda>p. rule_THEN (snd p)) ` set (fc_rules s)"
proof (induction m f i s rule: forward_loop.induct)
  case (1 m f i s)
  show ?case
  proof (cases "f \<and> i < m")
    case True
    obtain f' s' where rp: "rules_pass (fc_rules s) False s = (f', s')"
      by (cases "rules_pass (fc_rules s) False s")
    have fr: "fc_rules s' = fc_rules s"
      using rules_pass_frame [of "fc_rules s" False s] rp by simp
    have inf: "fc_inferred_facts s' \<subseteq> fc_inferred_facts s \<union> (\<lambda>p. rule_THEN (snd p)) ` set (fc_rules s)"
      using rules_pass_inferred [of "fc_rules s" False s] rp by simp
    have "forward_loop m f i s = forward_loop m f' (i + 1) s'"
      using True rp by (simp add: forward_loop_step)
    then show ?thesis using "1.IH" [OF True rp [symmetric]] fr inf by auto
  next
    case False
    then show ?thesis by (simp add: forward_loop_stop)
  qed
qed

text \<open>
  Claim C8 as stated fails. With the rule R1: IF a THEN b and the known facts a and b,
  the two sets are disjoint before the run; the run fires R1, whose consequent b is
  already a known fact, and b ends up in both sets.
\<close>

theorem disjoint_counterexample:
  "fc_working_memory (fc_add_facts (fc_init example_rules) [''a'', ''b''])
     \<inter> fc_inferred_facts (fc_add_facts (fc_init example_rules) [''a'', ''b'']) = {}
   \<and> fc_working_memory (snd (forward_chain (fc_add_facts (fc_init example_rules) [''a'', ''b'']) 50))
     \<inter> fc_inferred_facts (snd (forward_chain (fc_add_facts (fc_init example_rules) [''a'', ''b'']) 50))
     = {''b''}"
  by (simp add: example_rules_def fc_init_def unfired_and_applicable_def
        can_fire_rule_def fire_rule_def Let_def truthy_def get_CF_def get_description_def
        score_of_def forward_chain_def forward_loop_True forward_loop_False)

text \<open>
  Claim C8, amended. The known-fact set and the inferred-fact set stay disjoint under
  \<open>add_facts\<close> when none of the added facts is already inferred, under \<open>fire_rule\<close> when
  the rule's consequent is not a known fact, and under \<open>forward_chain\<close> when no rule of
  the rule set has a known fact as its consequent. Firing a rule that has not fired yet
  and whose consequent is a known fact puts that fact in both sets.
\<close>

theorem disjoint_when_no_known_consequent:
  "(fc_working_memory s \<inter> fc_inferred_facts s = {} \<and> set facts \<inter> fc_inferred_facts s = {} \<longrightarrow>
      fc_working_memory (fc_add_facts s facts) \<inter> fc_inferred_facts (fc_add_facts s facts) = {})
   \<and> (fc_working_memory s \<inter> fc_inferred_facts s = {} \<and> rule_THEN r \<notin> fc_working_memory s \<longrightarrow>
      fc_working_memory (snd (fire_rule s rule_id r)) \<inter> fc_inferred_facts (snd (fire_rule s rule_id r)) = {})
   \<and> (fc_working_memory s \<inter> fc_inferred_facts s = {}
        \<and> list_all (\<lambda>(rule_id, r). rule_THEN r \<notin> fc_working_memory s) (fc_rules s) \<longrightarrow>
      fc_working_memory (snd (forward_chain s max_iterations))
        \<inter> fc_inferred_facts (snd (forward_chain s max_iterations)) = {})
   \<and> (rule_id \<notin> set (fc_fired_rules s) \<and> rule_THEN r \<in> fc_working_memory s \<longrightarrow>
      rule_THEN r \<in> fc_working_memory (snd (fire_rule s rule_id r))
                       \<inter> fc_inferred_facts (snd (fire_rule s rule_id r)))"
proof (intro conjI impI)
  assume "fc_working_memory s \<inter> fc_inferred_facts s = {} \<and> set facts \<inter> fc_inferred_facts s = {}"
  then show "fc_working_memory (fc_add_facts s facts) \<inter> fc_inferred_facts (fc_add_facts s facts) = {}"
    by (auto simp: fc_add_facts_frame)
next
  assume "fc_working_memory s \<inter> fc_inferred_facts s = {} \<and> rule_THEN r \<notin> fc_working_memory s"
  then show "fc_working_memory (snd (fire_rule s rule_id r)) \<inter> fc_inferred_facts (snd (fire_rule s rule_id r)) = {}"
    using fire_rule_inferred [of s rule_id r] fire_rule_frame [of s rule_id r] by auto
next
  assume a: "fc_working_memory s \<inter> fc_inferred_facts s = {}
        \<and> list_all (\<lambda>(rule_id, r). rule_THEN r \<notin> fc_working_memory s) (fc_rules s)"
  obtain n s' where fl: "forward_loop max_iterations True 0 s = (n, s')"
    by (cases "forward_loop max_iterations True 0 s")
  have wm: "fc_working_memory s' = fc_working_memory s"
    using forward_loop_frame [of max_iterations True 0 s] fl by simp
  have inf: "fc_inferred_facts s' \<subseteq> fc_inferred_facts s \<union> (\<lambda>p. rule_THEN (snd p)) ` set (fc_rules s)"
    using forward_loop_inferred [of max_iterations True 0 s] fl by simp
  have "\<forall>p \<in> set (fc_rules s). rule_THEN (snd p) \<notin> fc_working_memory s"
    using a by (auto simp: list_all_iff)
  then have "fc_working_memory s' \<inter> fc_inferred_facts s' = {}"
    using a wm inf by auto
  then show "fc_working_memory (snd (forward_chain s max_iterations))
        \<inter> fc_inferred_facts (snd (forward_chain s max_iterations)) = {}"
    using fl by (simp add: forward_chain_def)
next
  assume "rule_id \<notin> set (fc_fired_rules s) \<and> rule_THEN r \<in> fc_working_memory s"
  then show "rule_THEN r \<in> fc_working_memory (snd (fire_rule s rule_id r))
                       \<inter> fc_inferred_facts (snd (fire_rule s rule_id r))"
    by (simp add: fire_rule_def Let_def)
qed

theorem disjoint_witness:
  "fc_working_memory (fc_add_facts (fc_init example_rules) [''a''])
     \<inter> fc_inferred_facts (fc_add_facts (fc_init example_rules) [''a'']) = {}
   \<and> fc_working_memory (snd (fire_rule (fc_add_facts (fc_init example_rules) [''a'']) ''R1'' (snd (hd example_rules))))
     \<inter> fc_inferred_facts (snd (fire_rule (fc_add_facts (fc_init example_rules) [''a'']) ''R1'' (snd (hd example_rules)))) = {}
   \<and> fc_working_memory (snd (forward_chain (fc_add_facts (fc_init example_rules) [''a'']) 50))
     \<inter> fc_inferred_facts (snd (forward_chain (fc_add_facts (fc_init example_rules) [''a'']) 50)) = {}
   \<and> ''b'' \<in> fc_working_memory (snd (fire_rule (fc_add_facts (fc_init example_rules) [''a'', ''b'']) ''R1'' (snd (hd example_rules))))
     \<inter> fc_inferred_facts (snd (fire_rule (fc_add_facts (fc_init example_rules) [''a'', ''b'']) ''R1'' (snd (hd example_rules))))"
  using disjoint_when_no_known_consequent [of "fc_init example_rules" "[''a'']"]
    disjoint_when_no_known_consequent [of "fc_add_facts (fc_init example_rules) [''a'']" _ "snd (hd example_rules)" "''R1''" 50]
    disjoint_when_no_known_consequent [of "fc_add_facts (fc_init example_rules) [''a'', ''b'']" _ "snd (hd example_rules)" "''R1''"]
  by (simp add: example_rules_def fc_init_def)

subsection \<open>Counting the passes\<close>

lemma forward_loop_bound:
  "i \<le> fst (forward_loop m f i s) \<and> fst (forward_loop m f i s) \<le> max i m"
proof (induction m f i s rule: forward_loop.induct)
  case (1 m f i s)
  show ?case
  proof (cases "f \<and> i < m")
    case True
    obtain f' s' where rp: "rules_pass (fc_rules s) False s = (f', s')"
      by (cases "rules_pass (fc_rules s) False s")
    have "forward_loop m f i s = forward_loop m f' (i + 1) s'"
      using True rp by (simp add: forward_loop_step)
    then show ?thesis using "1.IH" [OF True rp [symmetric]] True by auto
  next
    case False
    then show ?thesis by (simp add: forward_loop_stop)
  qed
qed

lemma rules_pass_nothing_applicable:
  "filter (unfired_and_applicable s) rs = [] \<Longrightarrow> rules_pass rs f s = (f, s)"
proof (induction rs)
  case Nil
  show ?case by simp
next
  case (Cons p rs)
  obtain i r where p: "p = (i, r)" by (cases p)
  from Cons.prems p have "\<not> unfired_and_applicable s (i, r)" and "filter (unfired_and_applicable s) rs = []"
    by (auto split: if_splits)
  then show ?case using Cons.IH p by (auto simp: unfired_and_applicable_def)
qed

lemma fire_rule_fired:
  "i \<notin> set (fc_fired_rules s) \<Longrightarrow> fire_rule s i r = (c, s') \<Longrightarrow>
   fc_fired_rules s' = fc_fired_rules s @ [i] \<and> c = Some (rule_THEN r)"
  by (auto simp: fire_rule_def Let_def)

lemma rules_pass_fired_length:
  "rules_pass rs f s = (f', s') \<Longrightarrow>
   length (fc_fired_rules s) \<le> length (fc_fired_rules s')
   \<and> (length (fc_fired_rules s') = length (fc_fired_rules s) \<longrightarrow>
        s' = s \<and> f' = f \<and> filter (unfired_and_applicable s) rs = [])"
proof (induction rs arbitrary: f s)
  case Nil
  then show ?case by simp
next
  case (Cons p rs)
  obtain i r where p: "p = (i, r)" by (cases p)
  show ?case
  proof (cases "unfired_and_applicable s (i, r)")
    case False
    then have "rules_pass (p # rs) f s = rules_pass rs f s"
      using p by (auto simp: unfired_and_applicable_def)
    then show ?thesis using Cons.IH [of f s] Cons.prems False p by simp
  next
    case True
    obtain c s1 where fr: "fire_rule s i r = (c, s1)" by (cases "fire_rule s i r")
    from True have nf: "i \<notin> set (fc_fired_rules s)" and cf: "can_fire_rule s r"
      by (auto simp: unfired_and_applicable_def)
    have len: "length (fc_fired_rules s1) = Suc (length (fc_fired_rules s))"
      using fire_rule_fired [OF nf fr] by simp
    have "rules_pass (p # rs) f s = rules_pass rs (if truthy c then True else f) s1"
      using p nf cf fr by simp
    then have "rules_pass rs (if truthy c then True else f) s1 = (f', s')"
      using Cons.prems by simp
    from Cons.IH [OF this] len show ?thesis by simp
  qed
qed

lemma forward_loop_fixpoint_bound:
  "is_fixpoint (passes k s) \<Longrightarrow> fst (forward_loop m f i s) \<le> i + int k + 1"
proof (induction k arbitrary: f i s)
  case 0
  then have fp: "filter (unfired_and_applicable s) (fc_rules s) = []"
    by (simp add: is_fixpoint_def)
  show ?case
  proof (cases "f \<and> i < m")
    case True
    have "rules_pass (fc_rules s) False s = (False, s)"
      using fp by (rule rules_pass_nothing_applicable)
    then have "forward_loop m f i s = forward_loop m False (i + 1) s"
      using True by (simp add: forward_loop_step)
    then show ?thesis by (simp add: forward_loop_stop)
  next
    case False
    then show ?thesis by (simp add: forward_loop_stop)
  qed
next
  case (Suc k)
  show ?case
  proof (cases "f \<and> i < m")
    case True
    obtain f' s' where rp: "rules_pass (fc_rules s) False s = (f', s')"
      by (cases "rules_pass (fc_rules s) False s")
    have "is_fixpoint (passes k s')" using Suc.prems rp by simp
    from Suc.IH [OF this, of f' "i + 1"]
    have "fst (forward_loop m f' (i + 1) s') \<le> i + 1 + int k + 1" .
    moreover have "forward_loop m f i s = forward_loop m f' (i + 1) s'"
      using True rp by (simp add: forward_loop_step)
    ultimately show ?thesis by simp
  next
    case False
    then show ?thesis by (simp add: forward_loop_stop)
  qed
qed

lemma rules_pass_flag_false:
  "list_all (\<lambda>(rule_id, r). rule_THEN r \<noteq> []) rs \<Longrightarrow> rules_pass rs f s = (False, s') \<Longrightarrow>
   s' = s \<and> filter (unfired_and_applicable s) rs = []"
proof (induction rs arbitrary: f s)
  case Nil
  then show ?case by simp
next
  case (Cons p rs)
  obtain i r where p: "p = (i, r)" by (cases p)
  from Cons.prems p have ne: "rule_THEN r \<noteq> []" and rest: "list_all (\<lambda>(rule_id, r). rule_THEN r \<noteq> []) rs"
    by auto
  show ?case
  proof (cases "unfired_and_applicable s (i, r)")
    case False
    then have "rules_pass (p # rs) f s = rules_pass rs f s"
      using p by (auto simp: unfired_and_applicable_def)
    then show ?thesis using Cons.IH [OF rest, of f s] Cons.prems False p by simp
  next
    case True
    obtain c s1 where fr: "fire_rule s i r = (c, s1)" by (cases "fire_rule s i r")
    from True have nf: "i \<notin> set (fc_fired_rules s)" and cf: "can_fire_rule s r"
      by (auto simp: unfired_and_applicable_def)
    have "truthy c" using fire_rule_fired [OF nf fr] ne by (simp add: truthy_def)
    then have "rules_pass (p # rs) f s = rules_pass rs True s1"
      using p nf cf fr by simp
    then have rp: "rules_pass rs True s1 = (False, s')" using Cons.prems by simp
    have "fst (rules_pass rs True s1) = True" for s1
      by (induction rs arbitrary: s1) (auto split: prod.splits)
    then show ?thesis using rp by (metis fst_conv)
  qed
qed

lemma forward_loop_reaches_fixpoint:
  "list_all (\<lambda>(rule_id, r). rule_THEN r \<noteq> []) (fc_rules s) \<Longrightarrow>
   is_fixpoint (passes k s) \<Longrightarrow> i + int k < m \<Longrightarrow>
   is_fixpoint (snd (forward_loop m True i s))"
proof (induction k arbitrary: i s)
  case 0
  then have fp: "filter (unfired_and_applicable s) (fc_rules s) = []"
    by (simp add: is_fixpoint_def)
  have "rules_pass (fc_rules s) False s = (False, s)"
    using fp by (rule rules_pass_nothing_applicable)
  then have "forward_loop m True i s = forward_loop m False (i + 1) s"
    using 0 by (simp add: forward_loop_step)
  then show ?case using 0 by (simp add: forward_loop_stop)
next
  case (Suc k)
  obtain f' s' where rp: "rules_pass (fc_rules s) False s = (f', s')"
    by (cases "rules_pass (fc_rules s) False s")
  have step: "forward_loop m True i s = forward_loop m f' (i + 1) s'"
    using Suc.prems rp by (simp add: forward_loop_step)
  have rs: "fc_rules s' = fc_rules s"
    using rules_pass_frame [of "fc_rules s" False s] rp by simp
  show ?case
  proof (cases f')
    case True
    have "is_fixpoint (passes k s')" using Suc.prems rp by simp
    from Suc.IH [OF _ this, of "i + 1"] Suc.prems rs
    have "is_fixpoint (snd (forward_loop m True (i + 1) s'))" by simp
    then show ?thesis using step True by simp
  next
    case False
    have "s' = s \<and> filter (unfired_and_applicable s) (fc_rules s) = []"
      using rules_pass_flag_false [OF Suc.prems(1)] rp False by simp
    then have "is_fixpoint s'" by (simp add: is_fixpoint_def)
    then show ?thesis using step False by (simp add: forward_loop_stop)
  qed
qed


text \<open>
  Claim C5 as stated fails. With the single rule R1: IF a THEN b (an acyclic rule set),
  the fact a and \<open>max_iterations = 2\<close>, the fixpoint is reached after one pass, fewer
  than \<open>max_iterations\<close>, but the returned iteration count is 2, which is not strictly
  less than \<open>max_iterations\<close>: the second pass is the one that finds nothing to fire.
  And with the rules R3, R1, R2 above and the fact a, the second pass fires R3 and adds
  no new fact (the inferred facts after two passes are those after one), yet the run
  does not end there: it makes a third pass.
\<close>

theorem forward_chain_iterations_counterexample:
  "is_fixpoint (passes 1 (fc_add_facts (fc_init example_rules) [''a'']))
   \<and> (1::int) < 2
   \<and> res_iterations (fst (forward_chain (fc_add_facts (fc_init example_rules) [''a'']) 2)) = 2
   \<and> fc_inferred_facts (passes 2 (fc_add_facts (fc_init late_rules) [''a'']))
       = fc_inferred_facts (passes 1 (fc_add_facts (fc_init late_rules) [''a'']))
   \<and> res_iterations (fst (forward_chain (fc_add_facts (fc_init late_rules) [''a'']) 50)) = 3"
  by (simp add: example_rules_def late_rules_def fc_init_def is_fixpoint_def
        unfired_and_applicable_def can_fire_rule_def fire_rule_def Let_def truthy_def
        get_CF_def get_description_def score_of_def forward_chain_def forward_loop_True
        forward_loop_False numeral_2_eq_2)

text \<open>
  Claim C5, amended. \<open>forward_chain\<close> is a total function and its iteration count is
  between 0 and \<open>max_iterations\<close> (0 when \<open>max_iterations\<close> is negative); a pass that
  fires no rule ends the run right after that pass; and when the state after \<open>k\<close> passes
  is a fixpoint with \<open>k < max_iterations\<close>, the returned iteration count is at most
  \<open>k + 1\<close>, hence at most \<open>max_iterations\<close> (the pass that detects the fixpoint is
  counted), and the final state is a fixpoint provided every rule has a non-empty
  consequent.
\<close>

theorem forward_chain_iterations:
  "0 \<le> res_iterations (fst (forward_chain s max_iterations))
   \<and> res_iterations (fst (forward_chain s max_iterations)) \<le> max 0 max_iterations
   \<and> (i < max_iterations \<and> fc_fired_rules (snd (rules_pass (fc_rules s) False s)) = fc_fired_rules s \<longrightarrow>
        forward_loop max_iterations True i s = (i + 1, s))
   \<and> (is_fixpoint (passes k s) \<and> int k < max_iterations \<longrightarrow>
        res_iterations (fst (forward_chain s max_iterations)) \<le> int k + 1
        \<and> res_iterations (fst (forward_chain s max_iterations)) \<le> max_iterations
        \<and> (list_all (\<lambda>(rule_id, r). rule_THEN r \<noteq> []) (fc_rules s) \<longrightarrow>
             is_fixpoint (snd (forward_chain s max_iterations))))"
proof -
  obtain n s' where fl: "forward_loop max_iterations True 0 s = (n, s')"
    by (cases "forward_loop max_iterations True 0 s")
  then have it: "res_iterations (fst (forward_chain s max_iterations)) = n"
    and st: "snd (forward_chain s max_iterations) = s'"
    by (simp_all add: forward_chain_def)
  have bound: "0 \<le> n \<and> n \<le> max 0 max_iterations"
    using forward_loop_bound [of 0 max_iterations True s] fl by simp
  have pass: "forward_loop max_iterations True i s = (i + 1, s)"
    if "i < max_iterations \<and> fc_fired_rules (snd (rules_pass (fc_rules s) False s)) = fc_fired_rules s"
  proof -
    obtain f1 s1 where rp: "rules_pass (fc_rules s) False s = (f1, s1)"
      by (cases "rules_pass (fc_rules s) False s")
    have "s1 = s \<and> f1 = False"
      using rules_pass_fired_length [OF rp] that rp by simp
    then have "forward_loop max_iterations True i s = forward_loop max_iterations False (i + 1) s"
      using that rp by (simp add: forward_loop_step)
    then show ?thesis by (simp add: forward_loop_stop)
  qed
  have fixp: "n \<le> int k + 1 \<and> n \<le> max_iterations
        \<and> (list_all (\<lambda>(rule_id, r). rule_THEN r \<noteq> []) (fc_rules s) \<longrightarrow> is_fixpoint s')"
    if "is_fixpoint (passes k s) \<and> int k < max_iterations"
  proof -
    have "n \<le> int k + 1"
      using forward_loop_fixpoint_bound [of k s max_iterations True 0] that fl by simp
    moreover have "n \<le> max_iterations" using bound that by simp
    moreover have "is_fixpoint s'" if "list_all (\<lambda>(rule_id, r). rule_THEN r \<noteq> []) (fc_rules s)"
      using forward_loop_reaches_fixpoint [OF that, of k 0 max_iterations] \<open>is_fixpoint (passes k s) \<and> int k < max_iterations\<close> fl
      by simp
    ultimately show ?thesis by simp
  qed
  show ?thesis using bound pass fixp it st by simp
qed

theorem forward_chain_iterations_witness:
  "res_iterations (fst (forward_chain (fc_add_facts (fc_init example_rules) [''a'']) 50)) \<le> 2
   \<and> is_fixpoint (snd (forward_chain (fc_add_facts (fc_init example_rules) [''a'']) 50))
   \<and> forward_loop 50 True 1 (passes 1 (fc_add_facts (fc_init example_rules) [''a'']))
       = (2, passes 1 (fc_add_facts (fc_init example_rules) [''a'']))"
proof -
  let ?s = "fc_add_facts (fc_init example_rules) [''a'']"
  have fp: "is_fixpoint (passes 1 ?s)"
    by (simp add: example_rules_def fc_init_def is_fixpoint_def unfired_and_applicable_def
        can_fire_rule_def fire_rule_def Let_def truthy_def get_CF_def get_description_def
        score_of_def)
  have ne: "list_all (\<lambda>(rule_id, r). rule_THEN r \<noteq> []) (fc_rules ?s)"
    by (simp add: example_rules_def fc_init_def)
  have same: "fc_fired_rules (snd (rules_pass (fc_rules (passes 1 ?s)) False (passes 1 ?s)))
                = fc_fired_rules (passes 1 ?s)"
    by (simp add: example_rules_def fc_init_def is_fixpoint_def unfired_and_applicable_def
        can_fire_rule_def fire_rule_def Let_def truthy_def get_CF_def get_description_def
        score_of_def)
  show ?thesis
    using forward_chain_iterations [of ?s 50 1 1] forward_chain_iterations [of "passes 1 ?s" 50 1 0]
      fp ne same by simp
qed

subsection \<open>Rules that fire\<close>

lemma fire_rule_fired_mono:
  "set (fc_fired_rules s) \<subseteq> set (fc_fired_rules (snd (fire_rule s i r)))"
  by (auto simp: fire_rule_def Let_def)

lemma rules_pass_fired_mono:
  "set (fc_fired_rules s) \<subseteq> set (fc_fired_rules (snd (rules_pass rs f s)))"
proof (induction rs arbitrary: f s)
  case Nil
  show ?case by simp
next
  case (Cons p rs)
  obtain i r where p: "p = (i, r)" by (cases p)
  obtain c s' where fr: "fire_rule s i r = (c, s')" by (cases "fire_rule s i r")
  have "set (fc_fired_rules s) \<subseteq> set (fc_fired_rules s')"
    using fire_rule_fired_mono [of s i r] fr by simp
  moreover have "set (fc_fired_rules s') \<subseteq> set (fc_fired_rules (snd (rules_pass rs g s')))" for g
    by (rule Cons.IH)
  moreover have "set (fc_fired_rules s) \<subseteq> set (fc_fired_rules (snd (rules_pass rs f s)))"
    by (rule Cons.IH)
  ultimately show ?case using p fr by (auto split: if_splits)
qed

lemma forward_loop_fired_mono:
  "set (fc_fired_rules s) \<subseteq> set (fc_fired_rules (snd (forward_loop m f i s)))"
proof (induction m f i s rule: forward_loop.induct)
  case (1 m f i s)
  show ?case
  proof (cases "f \<and> i < m")
    case True
    obtain f' s' where rp: "rules_pass (fc_rules s) False s = (f', s')"
      by (cases "rules_pass (fc_rules s) False s")
    have "set (fc_fired_rules s) \<subseteq> set (fc_fired_rules s')"
      using rules_pass_fired_mono [of s "fc_rules s" False] rp by simp
    moreover have "forward_loop m f i s = forward_loop m f' (i + 1) s'"
      using True rp by (simp add: forward_loop_step)
    ultimately show ?thesis using "1.IH" [OF True rp [symmetric]] by auto
  next
    case False
    then show ?thesis by (simp add: forward_loop_stop)
  qed
qed

lemma rules_pass_fires_applicable:
  "(i, r) \<in> set rs \<Longrightarrow> set (rule_IF r) \<subseteq> fc_working_memory s \<Longrightarrow>
   i \<in> set (fc_fired_rules (snd (rules_pass rs f s)))"
proof (induction rs arbitrary: f s)
  case Nil
  then show ?case by simp
next
  case (Cons p rs)
  obtain j q where p: "p = (j, q)" by (cases p)
  obtain c s' where fr: "fire_rule s j q = (c, s')" by (cases "fire_rule s j q")
  have wm: "fc_working_memory s' = fc_working_memory s"
    using fire_rule_frame [of s j q] fr by simp
  show ?case
  proof (cases "(i, r) = (j, q)")
    case True
    have can: "can_fire_rule s q"
      using Cons.prems(2) True by (auto simp: can_fire_rule_def list_all_iff)
    show ?thesis
    proof (cases "j \<in> set (fc_fired_rules s)")
      case True
      then show ?thesis
        using rules_pass_fired_mono [of s "p # rs" f] \<open>(i, r) = (j, q)\<close> by auto
    next
      case False
      then have "j \<in> set (fc_fired_rules s')"
        using fire_rule_fired [OF False fr] by simp
      then have "j \<in> set (fc_fired_rules (snd (rules_pass rs g s')))" for g
        using rules_pass_fired_mono [of s' rs g] by auto
      then show ?thesis using p fr False can True by simp
    qed
  next
    case False
    then have mem: "(i, r) \<in> set rs" using Cons.prems(1) p by auto
    have a: "i \<in> set (fc_fired_rules (snd (rules_pass rs g s')))" for g
      using Cons.IH [OF mem, of s' g] Cons.prems(2) wm by simp
    have b: "i \<in> set (fc_fired_rules (snd (rules_pass rs f s)))"
      using Cons.IH [OF mem Cons.prems(2)] .
    show ?thesis using a b p fr by (auto split: if_splits)
  qed
qed

text \<open>The score of a consequent that a single rule concludes.\<close>

lemma fire_rule_single_source:
  assumes "distinct (map fst rs)" and "(rid, r0) \<in> set rs"
    and "\<forall>(i, r) \<in> set rs. rule_THEN r = rule_THEN r0 \<longrightarrow> i = rid"
    and "(i, r) \<in> set rs"
    and "if rid \<in> set (fc_fired_rules s)
         then rule_THEN r0 \<in> fc_inferred_facts s \<and> fc_diagnosis_scores s (rule_THEN r0) = Some (get_CF r0)
         else fc_diagnosis_scores s (rule_THEN r0) = None"
  shows "if rid \<in> set (fc_fired_rules (snd (fire_rule s i r)))
         then rule_THEN r0 \<in> fc_inferred_facts (snd (fire_rule s i r))
              \<and> fc_diagnosis_scores (snd (fire_rule s i r)) (rule_THEN r0) = Some (get_CF r0)
         else fc_diagnosis_scores (snd (fire_rule s i r)) (rule_THEN r0) = None"
proof (cases "i \<in> set (fc_fired_rules s)")
  case True
  then show ?thesis using assms(5) by (simp add: fire_rule_def)
next
  case False
  show ?thesis
  proof (cases "i = rid")
    case True
    then have "r = r0" using assms(1,2,4) by (meson eq_key_imp_eq_value)
    then show ?thesis using True False assms(5)
      by (simp add: fire_rule_def Let_def score_of_def)
  next
    case ne: False
    then have "rule_THEN r \<noteq> rule_THEN r0" using assms(3,4) by auto
    then show ?thesis using ne False assms(5)
      by (auto simp: fire_rule_def Let_def)
  qed
qed

lemma rules_pass_single_source:
  assumes "distinct (map fst rs)" and "(rid, r0) \<in> set rs"
    and "\<forall>(i, r) \<in> set rs. rule_THEN r = rule_THEN r0 \<longrightarrow> i = rid"
  shows "set rest \<subseteq> set rs \<Longrightarrow>
     (if rid \<in> set (fc_fired_rules s)
         then rule_THEN r0 \<in> fc_inferred_facts s \<and> fc_diagnosis_scores s (rule_THEN r0) = Some (get_CF r0)
         else fc_diagnosis_scores s (rule_THEN r0) = None) \<Longrightarrow>
     (if rid \<in> set (fc_fired_rules (snd (rules_pass rest f s)))
         then rule_THEN r0 \<in> fc_inferred_facts (snd (rules_pass rest f s))
              \<and> fc_diagnosis_scores (snd (rules_pass rest f s)) (rule_THEN r0) = Some (get_CF r0)
         else fc_diagnosis_scores (snd (rules_pass rest f s)) (rule_THEN r0) = None)"
proof (induction rest arbitrary: f s)
  case Nil
  then show ?case by simp
next
  case (Cons p rest)
  obtain i r where p: "p = (i, r)" by (cases p)
  obtain c s' where fr: "fire_rule s i r = (c, s')" by (cases "fire_rule s i r")
  have mem: "(i, r) \<in> set rs" and sub: "set rest \<subseteq> set rs" using Cons.prems(1) p by auto
  have inv': "if rid \<in> set (fc_fired_rules s')
         then rule_THEN r0 \<in> fc_inferred_facts s' \<and> fc_diagnosis_scores s' (rule_THEN r0) = Some (get_CF r0)
         else fc_diagnosis_scores s' (rule_THEN r0) = None"
    using fire_rule_single_source [OF assms mem Cons.prems(2)] fr by (simp cong: if_cong)
  show ?case
  proof (cases "i \<notin> set (fc_fired_rules s) \<and> can_fire_rule s r")
    case True
    then have "rules_pass (p # rest) f s = rules_pass rest (if truthy c then True else f) s'"
      using p fr by simp
    then show ?thesis using Cons.IH [OF sub inv'] by (simp cong: if_cong)
  next
    case False
    then have "rules_pass (p # rest) f s = rules_pass rest f s"
      using p by auto
    then show ?thesis using Cons.IH [OF sub Cons.prems(2)] by (simp cong: if_cong)
  qed
qed

lemma forward_loop_single_source:
  assumes "distinct (map fst rs)" and "(rid, r0) \<in> set rs"
    and "\<forall>(i, r) \<in> set rs. rule_THEN r = rule_THEN r0 \<longrightarrow> i = rid"
  shows "fc_rules s = rs \<Longrightarrow>
     (if rid \<in> set (fc_fired_rules s)
         then rule_THEN r0 \<in> fc_inferred_facts s \<and> fc_diagnosis_scores s (rule_THEN r0) = Some (get_CF r0)
         else fc_diagnosis_scores s (rule_THEN r0) = None) \<Longrightarrow>
     (if rid \<in> set (fc_fired_rules (snd (forward_loop m f i s)))
         then rule_THEN r0 \<in> fc_inferred_facts (snd (forward_loop m f i s))
              \<and> fc_diagnosis_scores (snd (forward_loop m f i s)) (rule_THEN r0) = Some (get_CF r0)
         else fc_diagnosis_scores (snd (forward_loop m f i s)) (rule_THEN r0) = None)"
proof (induction m f i s rule: forward_loop.induct)
  case (1 m f i s)
  show ?case
  proof (cases "f \<and> i < m")
    case True
    obtain f' s' where rp: "rules_pass (fc_rules s) False s = (f', s')"
      by (cases "rules_pass (fc_rules s) False s")
    have rs': "fc_rules s' = rs"
      using rules_pass_frame [of "fc_rules s" False s] rp "1.prems"(1) by simp
    have inv': "if rid \<in> set (fc_fired_rules s')
         then rule_THEN r0 \<in> fc_inferred_facts s' \<and> fc_diagnosis_scores s' (rule_THEN r0) = Some (get_CF r0)
         else fc_diagnosis_scores s' (rule_THEN r0) = None"
      using rules_pass_single_source [OF assms, of "fc_rules s" s False] "1.prems" rp
      by (simp cong: if_cong)
    have "forward_loop m f i s = forward_loop m f' (i + 1) s'"
      using True rp by (simp add: forward_loop_step)
    then show ?thesis using "1.IH" [OF True rp [symmetric] rs' inv'] by (simp cong: if_cong)
  next
    case False
    then show ?thesis using "1.prems"(2) by (simp add: forward_loop_stop cong: if_cong)
  qed
qed

text \<open>
  Claim C2. If the rule set contains the rule R6 with antecedents
  touchscreen\_tidak\_respons and layar\_tampil\_normal, consequent
  kerusakan\_touchscreen\_digitizer and CF 0.88, and no other rule concludes
  kerusakan\_touchscreen\_digitizer, then a forward chaining run (of at least one pass, on
  a new engine) from the known facts touchscreen\_tidak\_respons, layar\_tampil\_normal
  and tombol\_fisik\_berfungsi fires R6, the inferred facts contain
  kerusakan\_touchscreen\_digitizer, and its diagnosis score is 0.88. The rule set is a
  dictionary, so its rule ids are distinct.
\<close>

theorem scenario_A_forward:
  assumes "distinct (map fst rs)"
    and "(''R6'', \<lparr>rule_IF = [''touchscreen_tidak_respons'', ''layar_tampil_normal''],
                   rule_THEN = ''kerusakan_touchscreen_digitizer'',
                   rule_CF = Some 0.88, rule_description = d\<rparr>) \<in> set rs"
    and "\<forall>(rule_id, r) \<in> set rs. rule_THEN r = ''kerusakan_touchscreen_digitizer'' \<longrightarrow> rule_id = ''R6''"
    and "1 \<le> max_iterations"
  shows "''R6'' \<in> set (res_fired_rules (fst (forward_chain
            (fc_add_facts (fc_init rs)
               [''touchscreen_tidak_respons'', ''layar_tampil_normal'', ''tombol_fisik_berfungsi''])
            max_iterations)))
       \<and> ''kerusakan_touchscreen_digitizer'' \<in> res_inferred_facts (fst (forward_chain
            (fc_add_facts (fc_init rs)
               [''touchscreen_tidak_respons'', ''layar_tampil_normal'', ''tombol_fisik_berfungsi''])
            max_iterations))
       \<and> res_diagnosis_scores (fst (forward_chain
            (fc_add_facts (fc_init rs)
               [''touchscreen_tidak_respons'', ''layar_tampil_normal'', ''tombol_fisik_berfungsi''])
            max_iterations)) ''kerusakan_touchscreen_digitizer'' = Some 0.88"
proof -
  let ?r6 = "\<lparr>rule_IF = [''touchscreen_tidak_respons'', ''layar_tampil_normal''],
                   rule_THEN = ''kerusakan_touchscreen_digitizer'',
                   rule_CF = Some 0.88, rule_description = d\<rparr>"
  let ?k = "''kerusakan_touchscreen_digitizer''"
  let ?s0 = "fc_add_facts (fc_init rs)
               [''touchscreen_tidak_respons'', ''layar_tampil_normal'', ''tombol_fisik_berfungsi'']"
  have single: "\<forall>(i, r) \<in> set rs. rule_THEN r = rule_THEN ?r6 \<longrightarrow> i = ''R6''"
    using assms(3) by simp
  have rs0: "fc_rules ?s0 = rs" by (simp add: fc_init_def)
  have inv0: "if ''R6'' \<in> set (fc_fired_rules ?s0)
         then rule_THEN ?r6 \<in> fc_inferred_facts ?s0 \<and> fc_diagnosis_scores ?s0 (rule_THEN ?r6) = Some (get_CF ?r6)
         else fc_diagnosis_scores ?s0 (rule_THEN ?r6) = None"
    by (simp add: fc_init_def)
  have wm0: "set (rule_IF ?r6) \<subseteq> fc_working_memory ?s0" by (simp add: fc_init_def)
  obtain f1 s1 where rp: "rules_pass (fc_rules ?s0) False ?s0 = (f1, s1)"
    by (cases "rules_pass (fc_rules ?s0) False ?s0")
  have fired1: "''R6'' \<in> set (fc_fired_rules s1)"
    using rules_pass_fires_applicable [OF assms(2) wm0, of False] rp rs0 by simp
  obtain n s' where fl: "forward_loop max_iterations f1 1 s1 = (n, s')"
    by (cases "forward_loop max_iterations f1 1 s1")
  have "forward_loop max_iterations True 0 ?s0 = forward_loop max_iterations f1 (0 + 1) s1"
    using assms(4) rp by (intro forward_loop_step) simp_all
  then have run: "forward_loop max_iterations True 0 ?s0 = (n, s')" using fl by simp
  have fired': "''R6'' \<in> set (fc_fired_rules s')"
    using forward_loop_fired_mono [of s1 max_iterations f1 1] fired1 fl by auto
  have "if ''R6'' \<in> set (fc_fired_rules s')
         then rule_THEN ?r6 \<in> fc_inferred_facts s' \<and> fc_diagnosis_scores s' (rule_THEN ?r6) = Some (get_CF ?r6)
         else fc_diagnosis_scores s' (rule_THEN ?r6) = None"
    using forward_loop_single_source [OF assms(1,2) single rs0 inv0, of max_iterations True 0] run
    by (simp cong: if_cong)
  then have "?k \<in> fc_inferred_facts s' \<and> fc_diagnosis_scores s' ?k = Some 0.88"
    using fired' by (simp add: get_CF_def)
  then show ?thesis using fired' run by (simp add: forward_chain_def)
qed

theorem scenario_A_forward_witness:
  "''R6'' \<in> set (res_fired_rules (fst (forward_chain
            (fc_add_facts (fc_init [(''R6'', \<lparr>rule_IF = [''touchscreen_tidak_respons'', ''layar_tampil_normal''],
                   rule_THEN = ''kerusakan_touchscreen_digitizer'',
                   rule_CF = Some 0.88, rule_description = None\<rparr>)])
               [''touchscreen_tidak_respons'', ''layar_tampil_normal'', ''tombol_fisik_berfungsi''])
            50)))
   \<and> res_diagnosis_scores (fst (forward_chain
            (fc_add_facts (fc_init [(''R6'', \<lparr>rule_IF = [''touchscreen_tidak_respons'', ''layar_tampil_normal''],
                   rule_THEN = ''kerusakan_touchscreen_digitizer'',
                   rule_CF = Some 0.88, rule_description = None\<rparr>)])
               [''touchscreen_tidak_respons'', ''layar_tampil_normal'', ''tombol_fisik_berfungsi''])
            50)) ''kerusakan_touchscreen_digitizer'' = Some 0.88"
  using scenario_A_forward [of "[(''R6'', \<lparr>rule_IF = [''touchscreen_tidak_respons'', ''layar_tampil_normal''],
                   rule_THEN = ''kerusakan_touchscreen_digitizer'',
                   rule_CF = Some 0.88, rule_description = None\<rparr>)]" None 50]
  by simp



section \<open>Properties of the backward chaining engine\<close>

subsection \<open>Questions to the oracle\<close>

lemma oracle_calls_append [simp]:
  "oracle_calls (xs @ ys) = oracle_calls xs @ oracle_calls ys"
  by (simp add: oracle_calls_def)

lemma oracle_calls_single [simp]:
  "oracle_calls [e] = questioned e"
  by (simp add: oracle_calls_def)

lemma asked_once_ask_user:
  "asked_once s \<Longrightarrow> asked_once (snd (ask_user s q))"
  by (auto simp: asked_once_def ask_user_def Let_def split: option.splits)

lemma ask_user_trace_cases:
  "ask_user s q = (a, s1) \<Longrightarrow>
   bc_rules s1 = bc_rules s \<and> bc_proved_goals s1 = bc_proved_goals s
   \<and> bc_failed_goals s1 = bc_failed_goals s \<and> bc_working_memory s1 = bc_working_memory s
   \<and> bc_question_callback s1 = bc_question_callback s
   \<and> (bc_reasoning_trace s1 = bc_reasoning_trace s
        \<or> bc_reasoning_trace s1 = bc_reasoning_trace s @ [User_questioned q a])"
  by (auto simp: ask_user_def Let_def split: option.splits if_splits)

lemma asked_once_prove_goal:
  "asked_once s \<Longrightarrow> asked_once (snd (prove_goal s g d m))"
  "asked_once s \<Longrightarrow> asked_once (snd (try_rules s g rs d m))"
  "asked_once s \<Longrightarrow> asked_once (snd (prove_conditions s cs d m))"
proof (induction s g d m and s g rs d m and s cs d m
       rule: prove_goal_try_rules_prove_conditions.induct)
  case (1 s goal depth max_depth)
  show ?case
  proof (cases "\<not> max_depth < depth \<and> goal \<notin> bc_proved_goals s \<and> goal \<notin> bc_failed_goals s
                \<and> goal \<notin> bc_working_memory s")
    case False
    then show ?thesis using "1.prems"
      by (subst prove_goal.simps) (auto simp: asked_once_def)
  next
    case True
    show ?thesis
    proof (cases "find_rules_for_goal s goal = []")
      case False
      then have "prove_goal s goal depth max_depth
                   = try_rules s goal (find_rules_for_goal s goal) depth max_depth"
        using True by (subst prove_goal.simps) simp
      then show ?thesis using "1.IH" True False "1.prems" by simp
    next
      case nil: True
      obtain a s1 where au: "ask_user s goal = (a, s1)" by (cases "ask_user s goal")
      have "asked_once s1" using asked_once_ask_user [OF "1.prems", of goal] au by simp
      then show ?thesis using True nil au
        by (subst prove_goal.simps) (auto simp: asked_once_def)
    qed
  qed
next
  case (2 s goal depth max_depth)
  then show ?case by (simp add: asked_once_def)
next
  case (3 s goal rule_id r rest depth max_depth)
  let ?s1 = "s\<lparr>bc_reasoning_trace :=
               bc_reasoning_trace s @ [Trying_rule rule_id goal (rule_IF r) depth]\<rparr>"
  obtain ok s2 where pc: "prove_conditions ?s1 (rule_IF r) (depth + 1) max_depth = (ok, s2)"
    by (cases "prove_conditions ?s1 (rule_IF r) (depth + 1) max_depth")
  have "asked_once ?s1" using "3.prems" by (simp add: asked_once_def)
  then have a2: "asked_once s2" using "3.IH"(1) pc by simp
  show ?case
  proof (cases ok)
    case True
    then show ?thesis using pc a2 by (simp add: asked_once_def)
  next
    case False
    then show ?thesis using pc a2 "3.IH"(2) [OF pc [symmetric]] by simp
  qed
next
  case (4 s depth max_depth)
  then show ?case by simp
next
  case (5 s condition rest depth max_depth)
  obtain ok s1 where pg: "prove_goal s condition depth max_depth = (ok, s1)"
    by (cases "prove_goal s condition depth max_depth")
  have a1: "asked_once s1" using "5.IH"(1) [OF "5.prems"] pg by simp
  show ?case
  proof (cases ok)
    case True
    then show ?thesis using pg a1 "5.IH"(2) [OF pg [symmetric]] by simp
  next
    case False
    then show ?thesis using pg a1 by simp
  qed
qed


lemma asked_once_bc_add_facts:
  "asked_once s \<Longrightarrow> asked_once (bc_add_facts s facts)"
  by (induction facts arbitrary: s) (auto simp: asked_once_def)

lemma asked_once_backward_chain_loop:
  "asked_once s \<Longrightarrow> asked_once (snd (backward_chain_loop s goals pl fl))"
proof (induction goals arbitrary: s pl fl)
  case Nil
  then show ?case by simp
next
  case (Cons goal goals)
  obtain ok s1 where pg: "prove_goal s goal 0 10 = (ok, s1)"
    by (cases "prove_goal s goal 0 10")
  have "asked_once s1" using asked_once_prove_goal(1) [OF Cons.prems, of goal 0 10] pg by simp
  then show ?case using Cons.IH pg by simp
qed

lemma asked_once_bc_apply:
  assumes a: "asked_once s"
  shows "asked_once (bc_apply s op)"
proof (cases op)
  case (Op_set_question_callback callback)
  then show ?thesis using a by (simp add: asked_once_def set_question_callback_def)
next
  case (Op_add_facts facts)
  then show ?thesis using a by (simp add: asked_once_bc_add_facts)
next
  case (Op_prove_goal goal depth max_depth)
  then show ?thesis using a by (simp add: asked_once_prove_goal(1))
next
  case (Op_backward_chain goals)
  obtain pl fl s' where l: "backward_chain_loop s goals [] [] = ((pl, fl), s')"
    by (metis surj_pair)
  have "asked_once s'" using asked_once_backward_chain_loop [OF a, of goals "[]" "[]"] l by simp
  then show ?thesis using Op_backward_chain l by (simp add: backward_chain_def)
next
  case Op_reset
  then show ?thesis by (simp add: asked_once_def bc_reset_def oracle_calls_def)
qed

lemma asked_once_foldl:
  "asked_once s \<Longrightarrow> asked_once (foldl bc_apply s ops)"
  by (induction ops arbitrary: s) (auto simp: asked_once_bc_apply)

text \<open>
  Claim C3. For every goal g that no rule concludes, with a question oracle that answers
  true for g, in a session where nothing has been asked and g is neither known nor
  memoized: \<open>prove_goal\<close> returns true, g is added to the working memory and to the
  proved goals, the asked questions are exactly g, and the trace gains the question and
  the proof by the user; a second \<open>prove_goal\<close> for g returns true and leaves the whole
  state, trace included, as it is, so the oracle is not invoked again. In every session
  the questions that the trace records are pairwise distinct: the oracle is invoked at
  most once per distinct goal.
\<close>

theorem scenario_B_backward:
  "(find_rules_for_goal s g = [] \<and> bc_question_callback s = Some oracle \<and> oracle g
      \<and> bc_asked_questions s = {} \<and> g \<notin> bc_working_memory s
      \<and> g \<notin> bc_proved_goals s \<and> g \<notin> bc_failed_goals s
      \<and> depth \<le> max_depth \<and> depth' \<le> max_depth' \<longrightarrow>
    fst (prove_goal s g depth max_depth) = True
    \<and> g \<in> bc_working_memory (snd (prove_goal s g depth max_depth))
    \<and> g \<in> bc_proved_goals (snd (prove_goal s g depth max_depth))
    \<and> bc_asked_questions (snd (prove_goal s g depth max_depth)) = {g}
    \<and> bc_reasoning_trace (snd (prove_goal s g depth max_depth))
        = bc_reasoning_trace s @ [User_questioned g True, Goal_proved_by_user g depth]
    \<and> prove_goal (snd (prove_goal s g depth max_depth)) g depth' max_depth'
        = (True, snd (prove_goal s g depth max_depth)))
   \<and> distinct (oracle_calls (bc_reasoning_trace (bc_session rs ops)))"
proof (intro conjI impI)
  assume a: "find_rules_for_goal s g = [] \<and> bc_question_callback s = Some oracle \<and> oracle g
      \<and> bc_asked_questions s = {} \<and> g \<notin> bc_working_memory s
      \<and> g \<notin> bc_proved_goals s \<and> g \<notin> bc_failed_goals s
      \<and> depth \<le> max_depth \<and> depth' \<le> max_depth'"
  let ?s1 = "s\<lparr>bc_asked_questions := {g},
               bc_reasoning_trace := bc_reasoning_trace s @ [User_questioned g True],
               bc_working_memory := insert g (bc_working_memory s),
               bc_proved_goals := insert g (bc_proved_goals s),
               bc_reasoning_trace := bc_reasoning_trace s @ [User_questioned g True] @ [Goal_proved_by_user g depth]\<rparr>"
  have first: "prove_goal s g depth max_depth = (True, ?s1)"
    using a by (subst prove_goal.simps) (simp add: ask_user_def Let_def)
  have second: "prove_goal ?s1 g depth' max_depth' = (True, ?s1)"
    using a by (subst prove_goal.simps) simp
  show "fst (prove_goal s g depth max_depth) = True" using first by simp
  show "g \<in> bc_working_memory (snd (prove_goal s g depth max_depth))" using first by simp
  show "g \<in> bc_proved_goals (snd (prove_goal s g depth max_depth))" using first by simp
  show "bc_asked_questions (snd (prove_goal s g depth max_depth)) = {g}" using first by simp
  show "bc_reasoning_trace (snd (prove_goal s g depth max_depth))
        = bc_reasoning_trace s @ [User_questioned g True, Goal_proved_by_user g depth]"
    using first by simp
  show "prove_goal (snd (prove_goal s g depth max_depth)) g depth' max_depth'
        = (True, snd (prove_goal s g depth max_depth))"
    using first second by simp
next
  have "asked_once (bc_init rs)" by (simp add: asked_once_def bc_init_def oracle_calls_def)
  then have "asked_once (bc_session rs ops)"
    unfolding bc_session_def by (rule asked_once_foldl)
  then show "distinct (oracle_calls (bc_reasoning_trace (bc_session rs ops)))"
    by (simp add: asked_once_def)
qed

theorem scenario_B_backward_witness:
  "fst (prove_goal (set_question_callback (bc_init example_rules) (\<lambda>q. q = ''a'')) ''a'' 0 10) = True
   \<and> bc_asked_questions (snd (prove_goal (set_question_callback (bc_init example_rules) (\<lambda>q. q = ''a'')) ''a'' 0 10)) = {''a''}
   \<and> oracle_calls (bc_reasoning_trace (bc_session example_rules
        [Op_set_question_callback (\<lambda>q. q = ''a''), Op_prove_goal ''a'' 0 10, Op_prove_goal ''a'' 0 10,
         Op_backward_chain [''b'', ''a'']])) = [''a'']"
proof -
  have "oracle_calls (bc_reasoning_trace (bc_session example_rules
        [Op_set_question_callback (\<lambda>q. q = ''a''), Op_prove_goal ''a'' 0 10, Op_prove_goal ''a'' 0 10,
         Op_backward_chain [''b'', ''a'']])) = [''a'']"
    by (simp add: bc_session_def prove_goal.simps example_rules_def bc_init_def
          find_rules_for_goal_def ask_user_def get_CF_def Let_def backward_chain_def
          set_question_callback_def oracle_calls_def)
  then show ?thesis
    using scenario_B_backward [of "set_question_callback (bc_init example_rules) (\<lambda>q. q = ''a'')"
        "''a''" "\<lambda>q. q = ''a''" 0 10 0 10 example_rules "[]"]
    by (simp add: example_rules_def bc_init_def find_rules_for_goal_def set_question_callback_def)
qed

subsection \<open>Proved and failed goals\<close>

text \<open>
  Claim C9, at the failing input. With the rules R1: IF a THEN g, R2: IF g THEN a and
  R3: IF b THEN a and the known fact b, \<open>prove_goal\<close> for g at the default depths
  returns true. On the way, the nested attempt for g at depth 10 fails because its
  condition a is cut off at depth 11, and g is memoized as failed; a is then proved at
  depth 9 through R3, so the attempt for g at depth 8, which had passed the cache checks
  before, succeeds through R1 and g is memoized as proved. Before the call the two
  sets are disjoint, afterwards g is in both; \<open>backward_chain\<close> ends in the same state.
\<close>

theorem proved_and_failed_overlap:
  "fst (prove_goal (bc_add_facts (bc_init cyclic_rules) [''b'']) ''g'' 0 10) = True
   \<and> bc_proved_goals (bc_add_facts (bc_init cyclic_rules) [''b''])
       \<inter> bc_failed_goals (bc_add_facts (bc_init cyclic_rules) [''b'']) = {}
   \<and> bc_proved_goals (snd (prove_goal (bc_add_facts (bc_init cyclic_rules) [''b'']) ''g'' 0 10))
       \<inter> bc_failed_goals (snd (prove_goal (bc_add_facts (bc_init cyclic_rules) [''b'']) ''g'' 0 10))
     = {''g''}
   \<and> bc_proved_goals (snd (backward_chain (bc_add_facts (bc_init cyclic_rules) [''b'']) [''g'']))
       \<inter> bc_failed_goals (snd (backward_chain (bc_add_facts (bc_init cyclic_rules) [''b'']) [''g'']))
     = {''g''}"
  by (simp add: prove_goal.simps cyclic_rules_def bc_init_def find_rules_for_goal_def
        ask_user_def get_CF_def Let_def backward_chain_def)


subsection \<open>The confidence of a proved goal\<close>

lemma own_rule_cfs_append [simp]:
  "own_rule_cfs (xs @ ys) g = own_rule_cfs xs g @ own_rule_cfs ys g"
  by (simp add: own_rule_cfs_def)

lemma own_rule_cfs_single [simp]:
  "own_rule_cfs [e] g = rule_cf_for g e"
  by (simp add: own_rule_cfs_def)

lemma recorded_cfs_append [simp]:
  "recorded_cfs (xs @ ys) = recorded_cfs xs @ recorded_cfs ys"
  by (simp add: recorded_cfs_def)

lemma recorded_cfs_single [simp]:
  "recorded_cfs [e] = rule_cf e"
  by (simp add: recorded_cfs_def)

lemma own_rule_cfs_subset_recorded:
  "set (own_rule_cfs tr g) \<subseteq> set (recorded_cfs tr)"
proof (induction tr)
  case Nil
  show ?case by (simp add: own_rule_cfs_def recorded_cfs_def)
next
  case (Cons e tr)
  have "set (rule_cf_for g e) \<subseteq> set (rule_cf e)" by (cases e) auto
  then show ?case using Cons by (auto simp: own_rule_cfs_def recorded_cfs_def)
qed

lemma foldl_confidence_step:
  "foldl (confidence_step g) c tr = foldl min c (own_rule_cfs tr g)"
proof (induction tr arbitrary: c)
  case Nil
  show ?case by (simp add: own_rule_cfs_def)
next
  case (Cons e tr)
  show ?case by (cases e) (simp_all add: Cons own_rule_cfs_def)
qed

lemma foldl_min_Min:
  "foldl min (c::real) xs = Min (insert c (set xs))"
proof (induction xs arbitrary: c)
  case Nil
  show ?case by simp
next
  case (Cons x xs)
  have "Min (insert (min c x) (set xs)) = Min (insert c (insert x (set xs)))"
  proof (cases "xs = []")
    case True
    then show ?thesis by (simp add: min_def)
  next
    case False
    then show ?thesis by (simp add: min.assoc)
  qed
  then show ?case using Cons [of "min c x"] by simp
qed

lemma calculate_goal_confidence_Min:
  "calculate_goal_confidence s g = Min (insert 1 (set (own_rule_cfs (bc_reasoning_trace s) g)))"
  by (simp add: calculate_goal_confidence_def foldl_confidence_step foldl_min_Min)

lemma Min_insert_one:
  assumes "\<forall>c \<in> set cfs. c \<le> (1::real)"
  shows "Min (insert 1 (set cfs)) = (if cfs = [] then 1 else Min (set cfs))"
proof (cases "cfs = []")
  case True
  then show ?thesis by simp
next
  case False
  then have "Min (set cfs) \<le> 1" using assms
    by (metis List.finite_set Min_in set_empty)
  then have e1: "min 1 (Min (set cfs)) = Min (set cfs)"
    by (rule min_absorb2)
  have e2: "Min (insert 1 (set cfs)) = min 1 (Min (set cfs))"
    using False by simp
  have "Min (insert 1 (set cfs)) = Min (set cfs)"
    using e2 e1 by (rule trans)
  then show ?thesis using False by (simp only: if_False)
qed


lemma ask_user_frame:
  "ask_user s q = (a, s1) \<Longrightarrow>
   bc_rules s1 = bc_rules s \<and> bc_proved_goals s1 = bc_proved_goals s
   \<and> own_rule_cfs (bc_reasoning_trace s1) x = own_rule_cfs (bc_reasoning_trace s) x
   \<and> recorded_cfs (bc_reasoning_trace s1) = recorded_cfs (bc_reasoning_trace s)"
  by (auto simp: ask_user_def Let_def split: option.splits if_splits)

text \<open>Proved goals are never withdrawn, and a proved goal gets no further rule entry.\<close>

lemma proved_goals_stable:
  "bc_proved_goals s \<subseteq> bc_proved_goals (snd (prove_goal s g d m))
   \<and> (\<forall>x \<in> bc_proved_goals s.
         own_rule_cfs (bc_reasoning_trace (snd (prove_goal s g d m))) x
           = own_rule_cfs (bc_reasoning_trace s) x)
   \<and> (fst (prove_goal s g d m) \<and> d \<le> m \<longrightarrow> g \<in> bc_proved_goals (snd (prove_goal s g d m)))"
  "bc_proved_goals s \<subseteq> bc_proved_goals (snd (try_rules s g rs d m))
   \<and> (\<forall>x \<in> bc_proved_goals s. x \<noteq> g \<longrightarrow>
         own_rule_cfs (bc_reasoning_trace (snd (try_rules s g rs d m))) x
           = own_rule_cfs (bc_reasoning_trace s) x)
   \<and> (fst (try_rules s g rs d m) \<longrightarrow> g \<in> bc_proved_goals (snd (try_rules s g rs d m)))"
  "bc_proved_goals s \<subseteq> bc_proved_goals (snd (prove_conditions s cs d m))
   \<and> (\<forall>x \<in> bc_proved_goals s.
         own_rule_cfs (bc_reasoning_trace (snd (prove_conditions s cs d m))) x
           = own_rule_cfs (bc_reasoning_trace s) x)"
proof (induction s g d m and s g rs d m and s cs d m
       rule: prove_goal_try_rules_prove_conditions.induct)
  case (1 s goal depth max_depth)
  show ?case
  proof (cases "\<not> max_depth < depth \<and> goal \<notin> bc_proved_goals s \<and> goal \<notin> bc_failed_goals s
                \<and> goal \<notin> bc_working_memory s")
    case False
    then show ?thesis
      by (subst (1 2 3 4) prove_goal.simps) auto
  next
    case True
    show ?thesis
    proof (cases "find_rules_for_goal s goal = []")
      case False
      then have "prove_goal s goal depth max_depth
                   = try_rules s goal (find_rules_for_goal s goal) depth max_depth"
        using True by (subst prove_goal.simps) simp
      then show ?thesis using "1.IH" True False by auto
    next
      case nil: True
      obtain a s1 where au: "ask_user s goal = (a, s1)" by (cases "ask_user s goal")
      have eq: "prove_goal s goal depth max_depth =
            (if a then
               (True, s1\<lparr>bc_working_memory := insert goal (bc_working_memory s1),
                        bc_proved_goals := insert goal (bc_proved_goals s1),
                        bc_reasoning_trace :=
                          bc_reasoning_trace s1 @ [Goal_proved_by_user goal depth]\<rparr>)
             else (False, s1\<lparr>bc_failed_goals := insert goal (bc_failed_goals s1)\<rparr>))"
        using True nil au by (subst prove_goal.simps) simp
      show ?thesis using ask_user_frame [OF au] by (auto simp: eq)
    qed
  qed
next
  case (2 s goal depth max_depth)
  show ?case by simp
next
  case (3 s goal rule_id r rest depth max_depth)
  let ?s1 = "s\<lparr>bc_reasoning_trace :=
               bc_reasoning_trace s @ [Trying_rule rule_id goal (rule_IF r) depth]\<rparr>"
  obtain ok s2 where pc: "prove_conditions ?s1 (rule_IF r) (depth + 1) max_depth = (ok, s2)"
    by (cases "prove_conditions ?s1 (rule_IF r) (depth + 1) max_depth")
  have a2: "bc_proved_goals s \<subseteq> bc_proved_goals s2
     \<and> (\<forall>x \<in> bc_proved_goals s.
           own_rule_cfs (bc_reasoning_trace s2) x = own_rule_cfs (bc_reasoning_trace s) x)"
    using "3.IH"(1) pc by simp
  show ?case
  proof (cases ok)
    case True
    then show ?thesis using pc a2 by auto
  next
    case False
    have ih: "bc_proved_goals s2 \<subseteq> bc_proved_goals (snd (try_rules s2 goal rest depth max_depth))
       \<and> (\<forall>x \<in> bc_proved_goals s2. x \<noteq> goal \<longrightarrow>
             own_rule_cfs (bc_reasoning_trace (snd (try_rules s2 goal rest depth max_depth))) x
               = own_rule_cfs (bc_reasoning_trace s2) x)
       \<and> (fst (try_rules s2 goal rest depth max_depth) \<longrightarrow>
             goal \<in> bc_proved_goals (snd (try_rules s2 goal rest depth max_depth)))"
      using "3.IH"(2) [OF pc [symmetric]] False by simp
    have "try_rules s goal ((rule_id, r) # rest) depth max_depth
            = try_rules s2 goal rest depth max_depth"
      using pc False by simp
    then show ?thesis using a2 ih by auto
  qed
next
  case (4 s depth max_depth)
  show ?case by simp
next
  case (5 s condition rest depth max_depth)
  obtain ok s1 where pg: "prove_goal s condition depth max_depth = (ok, s1)"
    by (cases "prove_goal s condition depth max_depth")
  have a1: "bc_proved_goals s \<subseteq> bc_proved_goals s1
     \<and> (\<forall>x \<in> bc_proved_goals s.
           own_rule_cfs (bc_reasoning_trace s1) x = own_rule_cfs (bc_reasoning_trace s) x)"
    using "5.IH"(1) pg by simp
  show ?case
  proof (cases ok)
    case True
    have ih: "bc_proved_goals s1 \<subseteq> bc_proved_goals (snd (prove_conditions s1 rest depth max_depth))
       \<and> (\<forall>x \<in> bc_proved_goals s1.
             own_rule_cfs (bc_reasoning_trace (snd (prove_conditions s1 rest depth max_depth))) x
               = own_rule_cfs (bc_reasoning_trace s1) x)"
      using "5.IH"(2) [OF pg [symmetric]] True by simp
    have "prove_conditions s (condition # rest) depth max_depth
            = prove_conditions s1 rest depth max_depth"
      using pg True by simp
    then show ?thesis using a1 ih by auto
  next
    case False
    then show ?thesis using pg a1 by simp
  qed
qed


text \<open>Rule CFs of at most 1 keep the recorded CFs at most 1.\<close>

lemma cfs_at_most_one_stable:
  "cfs_at_most_one s \<Longrightarrow> cfs_at_most_one (snd (prove_goal s g d m))"
  "cfs_at_most_one s \<Longrightarrow> list_all (\<lambda>(rule_id, r). get_CF r \<le> 1) rs \<Longrightarrow>
     cfs_at_most_one (snd (try_rules s g rs d m))"
  "cfs_at_most_one s \<Longrightarrow> cfs_at_most_one (snd (prove_conditions s cs d m))"
proof (induction s g d m and s g rs d m and s cs d m
       rule: prove_goal_try_rules_prove_conditions.induct)
  case (1 s goal depth max_depth)
  show ?case
  proof (cases "\<not> max_depth < depth \<and> goal \<notin> bc_proved_goals s \<and> goal \<notin> bc_failed_goals s
                \<and> goal \<notin> bc_working_memory s")
    case False
    then show ?thesis using "1.prems"
      by (subst prove_goal.simps) (auto simp: cfs_at_most_one_def)
  next
    case True
    show ?thesis
    proof (cases "find_rules_for_goal s goal = []")
      case False
      have "list_all (\<lambda>(rule_id, r). get_CF r \<le> 1) (find_rules_for_goal s goal)"
        using "1.prems" by (auto simp: cfs_at_most_one_def find_rules_for_goal_def list_all_iff)
      moreover have "prove_goal s goal depth max_depth
                   = try_rules s goal (find_rules_for_goal s goal) depth max_depth"
        using True False by (subst prove_goal.simps) simp
      ultimately show ?thesis using "1.IH" True False "1.prems" by simp
    next
      case nil: True
      obtain a s1 where au: "ask_user s goal = (a, s1)" by (cases "ask_user s goal")
      have "cfs_at_most_one s1"
        using ask_user_frame [OF au] "1.prems" by (simp add: cfs_at_most_one_def)
      then show ?thesis using True nil au
        by (subst prove_goal.simps) (auto simp: cfs_at_most_one_def)
    qed
  qed
next
  case (2 s goal depth max_depth)
  then show ?case by (simp add: cfs_at_most_one_def)
next
  case (3 s goal rule_id r rest depth max_depth)
  let ?s1 = "s\<lparr>bc_reasoning_trace :=
               bc_reasoning_trace s @ [Trying_rule rule_id goal (rule_IF r) depth]\<rparr>"
  obtain ok s2 where pc: "prove_conditions ?s1 (rule_IF r) (depth + 1) max_depth = (ok, s2)"
    by (cases "prove_conditions ?s1 (rule_IF r) (depth + 1) max_depth")
  have "cfs_at_most_one ?s1" using "3.prems"(1) by (simp add: cfs_at_most_one_def)
  then have a2: "cfs_at_most_one s2" using "3.IH"(1) pc by simp
  have r1: "get_CF r \<le> 1" and rest: "list_all (\<lambda>(rule_id, r). get_CF r \<le> 1) rest"
    using "3.prems"(2) by simp_all
  show ?case
  proof (cases ok)
    case True
    then show ?thesis using pc a2 r1 by (simp add: cfs_at_most_one_def)
  next
    case False
    then show ?thesis using pc a2 rest "3.IH"(2) [OF pc [symmetric]] by simp
  qed
next
  case (4 s depth max_depth)
  then show ?case by simp
next
  case (5 s condition rest depth max_depth)
  obtain ok s1 where pg: "prove_goal s condition depth max_depth = (ok, s1)"
    by (cases "prove_goal s condition depth max_depth")
  have a1: "cfs_at_most_one s1" using "5.IH"(1) [OF "5.prems"] pg by simp
  show ?case
  proof (cases ok)
    case True
    then show ?thesis using pg a1 "5.IH"(2) [OF pg [symmetric]] by simp
  next
    case False
    then show ?thesis using pg a1 by simp
  qed
qed

lemma backward_chain_loop_confidence:
  assumes "backward_chain_loop s goals pl fl = ((pl', fl'), s')"
    and "cfs_at_most_one s"
    and "\<forall>(g, c) \<in> set pl. g \<in> bc_proved_goals s
           \<and> c = Min (insert 1 (set (own_rule_cfs (bc_reasoning_trace s) g)))"
  shows "cfs_at_most_one s'
     \<and> (\<forall>(g, c) \<in> set pl'. g \<in> bc_proved_goals s'
           \<and> c = Min (insert 1 (set (own_rule_cfs (bc_reasoning_trace s') g))))"
  using assms
proof (induction goals arbitrary: s pl fl)
  case Nil
  then show ?case by simp
next
  case (Cons goal goals)
  obtain ok s1 where pg: "prove_goal s goal 0 10 = (ok, s1)"
    by (cases "prove_goal s goal 0 10")
  have c1: "cfs_at_most_one s1"
    using cfs_at_most_one_stable(1) [OF Cons.prems(2), of goal 0 10] pg by simp
  have st: "bc_proved_goals s \<subseteq> bc_proved_goals s1
     \<and> (\<forall>x \<in> bc_proved_goals s.
           own_rule_cfs (bc_reasoning_trace s1) x = own_rule_cfs (bc_reasoning_trace s) x)
     \<and> (ok \<longrightarrow> goal \<in> bc_proved_goals s1)"
    using proved_goals_stable(1) [of s goal 0 10] pg by simp
  have inv1: "\<forall>(g, c) \<in> set pl. g \<in> bc_proved_goals s1
           \<and> c = Min (insert 1 (set (own_rule_cfs (bc_reasoning_trace s1) g)))"
    using Cons.prems(3) st by fastforce
  show ?case
  proof (cases ok)
    case True
    have inv2: "\<forall>(g, c) \<in> set (pl @ [(goal, calculate_goal_confidence s1 goal)]).
           g \<in> bc_proved_goals s1
           \<and> c = Min (insert 1 (set (own_rule_cfs (bc_reasoning_trace s1) g)))"
      using inv1 st True by (auto simp: calculate_goal_confidence_Min)
    have "backward_chain_loop s1 goals (pl @ [(goal, calculate_goal_confidence s1 goal)]) fl
            = ((pl', fl'), s')"
      using Cons.prems(1) pg True by simp
    from Cons.IH [OF this c1 inv2] show ?thesis .
  next
    case False
    have "backward_chain_loop s1 goals pl (fl @ [goal]) = ((pl', fl'), s')"
      using Cons.prems(1) pg False by simp
    from Cons.IH [OF this c1 inv1] show ?thesis .
  qed
qed

text \<open>
  Claim C6 as stated fails. With the rules R1: IF a THEN g (CF 0.9) and R2: IF b THEN a
  (CF 0.2) and the known fact b, \<open>backward_chain\<close> proves g through R1 after proving
  its condition a through R2. The trace records both rules, and both contribute to the
  proof of g, so the minimum CF among the contributing rules is 0.2; the reported
  confidence of g is 0.9, the CF of R1 alone.
\<close>

theorem backward_chain_confidence_counterexample:
  "bres_proved_goals (fst (backward_chain (bc_add_facts (bc_init chain_rules) [''b'']) [''g'']))
     = [(''g'', 0.9)]
   \<and> bres_reasoning_trace (fst (backward_chain (bc_add_facts (bc_init chain_rules) [''b'']) [''g'']))
     = [BC_fact_added ''b'', Trying_rule ''R1'' ''g'' [''a''] 0, Trying_rule ''R2'' ''a'' [''b''] 1,
        Goal_proved_by_fact ''b'' 2, Goal_proved_by_rule ''R2'' ''a'' 0.2 1,
        Goal_proved_by_rule ''R1'' ''g'' 0.9 0]
   \<and> contributing_rule_cfs chain_rules
        (bres_reasoning_trace (fst (backward_chain (bc_add_facts (bc_init chain_rules) [''b'']) [''g''])))
        ''g'' = [0.9, 0.2]
   \<and> Min (set (contributing_rule_cfs chain_rules
        (bres_reasoning_trace (fst (backward_chain (bc_add_facts (bc_init chain_rules) [''b'']) [''g''])))
        ''g'')) = 0.2
   \<and> (0.9::real) \<noteq> 0.2"
proof -
  let ?s = "bc_add_facts (bc_init chain_rules) [''b'']"
  have tr: "bres_reasoning_trace (fst (backward_chain ?s [''g'']))
     = [BC_fact_added ''b'', Trying_rule ''R1'' ''g'' [''a''] 0, Trying_rule ''R2'' ''a'' [''b''] 1,
        Goal_proved_by_fact ''b'' 2, Goal_proved_by_rule ''R2'' ''a'' 0.2 1,
        Goal_proved_by_rule ''R1'' ''g'' 0.9 0]"
    by (simp add: prove_goal.simps chain_rules_def bc_init_def find_rules_for_goal_def
          ask_user_def get_CF_def Let_def backward_chain_def)
  have pl: "bres_proved_goals (fst (backward_chain ?s [''g''])) = [(''g'', 0.9)]"
    by (simp add: prove_goal.simps chain_rules_def bc_init_def find_rules_for_goal_def
          ask_user_def get_CF_def Let_def backward_chain_def calculate_goal_confidence_def)
  have cfs: "contributing_rule_cfs chain_rules
        [BC_fact_added ''b'', Trying_rule ''R1'' ''g'' [''a''] 0, Trying_rule ''R2'' ''a'' [''b''] 1,
         Goal_proved_by_fact ''b'' 2, Goal_proved_by_rule ''R2'' ''a'' 0.2 1,
         Goal_proved_by_rule ''R1'' ''g'' 0.9 0] ''g'' = [0.9, 0.2]"
    by (simp add: contributing_rule_cfs_def chain_rules_def conditions_of_def numeral_2_eq_2)
  show ?thesis
    by (simp only: tr pl cfs) simp
qed

text \<open>
  Claim C6, amended. For every goal that \<open>backward_chain\<close> reports as proved, the
  reported confidence is the minimum CF among the \<open>goal_proved_by_rule\<close> entries of the
  returned reasoning trace whose goal is that goal itself (the rules that concluded the
  goal, not the rules that proved its conditions), and 1.0 when the trace has no such
  entry (the goal was proved by a fact or by the user); the goal is among the proved
  goals of the session. Rule CFs are at most 1, as the data model requires, in the rule
  set and in the trace the session starts from.
\<close>

theorem backward_chain_confidence:
  assumes "cfs_at_most_one s"
    and "(goal, confidence) \<in> set (bres_proved_goals (fst (backward_chain s goals)))"
  shows "goal \<in> bc_proved_goals (snd (backward_chain s goals))
     \<and> confidence =
         (if own_rule_cfs (bres_reasoning_trace (fst (backward_chain s goals))) goal = [] then 1
          else Min (set (own_rule_cfs (bres_reasoning_trace (fst (backward_chain s goals))) goal)))"
proof -
  obtain pl fl s' where l: "backward_chain_loop s goals [] [] = ((pl, fl), s')"
    by (metis surj_pair)
  have res: "bres_proved_goals (fst (backward_chain s goals)) = pl"
    "bres_reasoning_trace (fst (backward_chain s goals)) = bc_reasoning_trace s'"
    "snd (backward_chain s goals) = s'"
    using l by (simp_all add: backward_chain_def)
  have inv: "cfs_at_most_one s'
     \<and> (\<forall>(g, c) \<in> set pl. g \<in> bc_proved_goals s'
           \<and> c = Min (insert 1 (set (own_rule_cfs (bc_reasoning_trace s') g))))"
    using backward_chain_loop_confidence [OF l assms(1)] by simp
  then have g: "goal \<in> bc_proved_goals s'"
    and c: "confidence = Min (insert 1 (set (own_rule_cfs (bc_reasoning_trace s') goal)))"
    using assms(2) res(1) by auto
  have "\<forall>c \<in> set (own_rule_cfs (bc_reasoning_trace s') goal). c \<le> 1"
    using inv own_rule_cfs_subset_recorded [of "bc_reasoning_trace s'" goal]
    by (auto simp: cfs_at_most_one_def list_all_iff)
  then have "confidence =
      (if own_rule_cfs (bc_reasoning_trace s') goal = [] then 1
       else Min (set (own_rule_cfs (bc_reasoning_trace s') goal)))"
    using c Min_insert_one by simp
  then show ?thesis using g res by simp
qed

theorem backward_chain_confidence_witness:
  "bres_proved_goals (fst (backward_chain (bc_add_facts (bc_init cyclic_rules) [''b'']) [''g'', ''a'']))
     = [(''g'', 0.9), (''a'', 0.7)]
   \<and> own_rule_cfs (bres_reasoning_trace
        (fst (backward_chain (bc_add_facts (bc_init cyclic_rules) [''b'']) [''g'', ''a'']))) ''a''
     = [0.7, 0.8, 0.8, 0.8, 0.8]
   \<and> ''a'' \<in> bc_proved_goals (snd (backward_chain (bc_add_facts (bc_init cyclic_rules) [''b'']) [''g'', ''a'']))
   \<and> (0.7::real) = Min (set [0.7, 0.8, 0.8, 0.8, 0.8])"
proof -
  let ?s = "bc_add_facts (bc_init cyclic_rules) [''b'']"
  have wf: "cfs_at_most_one ?s"
    by (simp add: cfs_at_most_one_def cyclic_rules_def bc_init_def get_CF_def recorded_cfs_def)
  have pl: "bres_proved_goals (fst (backward_chain ?s [''g'', ''a''])) = [(''g'', 0.9), (''a'', 0.7)]"
    by (simp add: prove_goal.simps cyclic_rules_def bc_init_def find_rules_for_goal_def
          ask_user_def get_CF_def Let_def backward_chain_def calculate_goal_confidence_def)
  have tr: "own_rule_cfs (bres_reasoning_trace (fst (backward_chain ?s [''g'', ''a'']))) ''a''
              = [0.7, 0.8, 0.8, 0.8, 0.8]"
    by (simp add: prove_goal.simps cyclic_rules_def bc_init_def find_rules_for_goal_def
          ask_user_def get_CF_def Let_def backward_chain_def own_rule_cfs_def)
  have mem: "(''a'', 0.7) \<in> set (bres_proved_goals (fst (backward_chain ?s [''g'', ''a''])))"
    by (subst pl) simp
  have "''a'' \<in> bc_proved_goals (snd (backward_chain ?s [''g'', ''a'']))
     \<and> (0.7::real) = Min (set [0.7, 0.8, 0.8, 0.8, 0.8])"
    using backward_chain_confidence [OF wf mem] by (subst (asm) (1 2) tr) simp
  then show ?thesis using pl tr by blast
qed

end
